theory Spec2Isabelle
  imports Main "HOL-Library.Sublist"
begin

section \<open>Python values and exceptions\<close>

text \<open>
  The exceptions the script can meet. \<open>RequestException\<close> stands for every subclass of
  \<^verbatim>\<open>requests.exceptions.RequestException\<close> (connection failure, timeout, the
  \<^verbatim>\<open>HTTPError\<close> of \<^verbatim>\<open>raise_for_status\<close>, a body that is not JSON).
  \<open>OSError\<close> stands for its subclasses too (\<^verbatim>\<open>FileNotFoundError\<close>,
  \<^verbatim>\<open>PermissionError\<close>).
\<close>

datatype exn =
    AttributeError
  | TypeError
  | IndexError
  | OverflowError
  | OSError
  | ValueError string
  | RequestException

text \<open>
  A decoded JSON document, as \<^verbatim>\<open>response.json()\<close> returns it: \<open>JNull\<close> is
  \<^verbatim>\<open>None\<close>, \<open>JObj\<close> is a \<^verbatim>\<open>dict\<close> given by its items in insertion order
  (keys distinct), \<open>JArr\<close> a \<^verbatim>\<open>list\<close>. Numbers with a fraction part (Python floats)
  are left out. Characters are the 256 values of \<^typ>\<open>char\<close>; code points above that are
  not represented.
\<close>

datatype json =
    JNull
  | JBool bool
  | JInt int
  | JStr string
  | JArr "json list"
  | JObj "(string \<times> json) list"

definition sbind :: "exn + 'a \<Rightarrow> ('a \<Rightarrow> exn + 'b) \<Rightarrow> exn + 'b" where
  "sbind m f = (case m of Inl e \<Rightarrow> Inl e | Inr v \<Rightarrow> f v)"

text \<open>\<^verbatim>\<open>d.get(key, default)\<close>: only a dict has the method.\<close>

fun py_get :: "json \<Rightarrow> string \<Rightarrow> json \<Rightarrow> exn + json" where
  "py_get (JObj kv) k d = Inr (case map_of kv k of None \<Rightarrow> d | Some v \<Rightarrow> v)"
| "py_get _ k d = Inl AttributeError"

text \<open>Truth value of an object, as \<^verbatim>\<open>if x:\<close> takes it.\<close>

fun truthy :: "json \<Rightarrow> bool" where
  "truthy JNull = False"
| "truthy (JBool b) = b"
| "truthy (JInt n) = (n \<noteq> 0)"
| "truthy (JStr s) = (s \<noteq> [])"
| "truthy (JArr xs) = (xs \<noteq> [])"
| "truthy (JObj kv) = (kv \<noteq> [])"

text \<open>\<^verbatim>\<open>len(x)\<close> and \<^verbatim>\<open>for obj in x\<close>.\<close>

fun py_len :: "json \<Rightarrow> exn + nat" where
  "py_len (JStr s) = Inr (length s)"
| "py_len (JArr xs) = Inr (length xs)"
| "py_len (JObj kv) = Inr (length kv)"
| "py_len _ = Inl TypeError"

fun py_iter :: "json \<Rightarrow> exn + json list" where
  "py_iter (JStr s) = Inr (map (\<lambda>c. JStr [c]) s)"
| "py_iter (JArr xs) = Inr xs"
| "py_iter (JObj kv) = Inr (map (\<lambda>p. JStr (fst p)) kv)"
| "py_iter _ = Inl TypeError"

section \<open>String methods\<close>

text \<open>\<^verbatim>\<open>sub in s\<close> on strings.\<close>

fun contains_str :: "string \<Rightarrow> string \<Rightarrow> bool" where
  "contains_str sub [] = (sub = [])"
| "contains_str sub (c # cs) = (prefix sub (c # cs) \<or> contains_str sub cs)"

text \<open>
  \<^verbatim>\<open>s.split(sep)\<close> and \<^verbatim>\<open>s.replace(old, new)\<close> for a non-empty \<open>sep\<close> and
  \<open>old\<close>: a scan from the left over non-overlapping occurrences. The script calls them
  with the literals \<^verbatim>\<open>'://'\<close>, \<^verbatim>\<open>'+'\<close>, \<^verbatim>\<open>'Z'\<close>, \<^verbatim>\<open>'-'\<close>, \<^verbatim>\<open>'T'\<close>,
  \<^verbatim>\<open>':'\<close>, \<^verbatim>\<open>'/'\<close>, \<^verbatim>\<open>'\\'\<close> and \<^verbatim>\<open>' '\<close> only.
\<close>

fun py_split :: "string \<Rightarrow> string \<Rightarrow> string list" where
  "py_split sep [] = [[]]"
| "py_split sep (c # cs) =
     (if sep \<noteq> [] \<and> prefix sep (c # cs) then [] # py_split sep (drop (length sep - 1) cs)
      else (case py_split sep cs of [] \<Rightarrow> [[c]] | p # ps \<Rightarrow> (c # p) # ps))"

fun py_replace :: "string \<Rightarrow> string \<Rightarrow> string \<Rightarrow> string" where
  "py_replace old new [] = []"
| "py_replace old new (c # cs) =
     (if old \<noteq> [] \<and> prefix old (c # cs) then new @ py_replace old new (drop (length old - 1) cs)
      else c # py_replace old new cs)"

text \<open>\<^verbatim>\<open>xs[0]\<close> and \<^verbatim>\<open>xs[-1]\<close> on a list.\<close>

definition index_first :: "'a list \<Rightarrow> exn + 'a" where
  "index_first xs = (case xs of [] \<Rightarrow> Inl IndexError | x # _ \<Rightarrow> Inr x)"

definition index_last :: "'a list \<Rightarrow> exn + 'a" where
  "index_last xs = (case xs of [] \<Rightarrow> Inl IndexError | _ # _ \<Rightarrow> Inr (last xs))"

text \<open>\<^verbatim>\<open>'://' in x\<close> and \<^verbatim>\<open>x.split('://')\<close> on an arbitrary decoded value.\<close>

fun py_in :: "string \<Rightarrow> json \<Rightarrow> exn + bool" where
  "py_in sub (JStr s) = Inr (contains_str sub s)"
| "py_in sub (JArr xs) = Inr (JStr sub \<in> set xs)"
| "py_in sub (JObj kv) = Inr (sub \<in> fst ` set kv)"
| "py_in sub _ = Inl TypeError"

fun split_method :: "json \<Rightarrow> string \<Rightarrow> exn + string list" where
  "split_method (JStr s) sep = Inr (py_split sep s)"
| "split_method _ sep = Inl AttributeError"

section \<open>The dependency record\<close>

text \<open>
  The dict \<^verbatim>\<open>dependency_info\<close> of \<^verbatim>\<open>get_new_dependencies\<close>, with its five fixed
  keys. The values are whatever the API object held.
\<close>

record dependency_info =
  package_name :: json
  resolved_version :: json
  created_date :: json
  uuid :: json
  name :: json

text \<open>
  \<^verbatim>\<open>if package_name and '://' in package_name:
      package_name = package_name.split('://')[-1]\<close>
\<close>

definition strip_scheme :: "json \<Rightarrow> exn + json" where
  "strip_scheme pn =
     (if truthy pn then
        sbind (py_in ''://'' pn) (\<lambda>found.
          if found then
            sbind (split_method pn ''://'') (\<lambda>parts.
            sbind (index_last parts) (\<lambda>l. Inr (JStr l)))
          else Inr pn)
      else Inr pn)"

text \<open>The body of \<^verbatim>\<open>for obj in objects\<close>, up to the append.\<close>

definition make_dependency_info :: "json \<Rightarrow> exn + dependency_info" where
  "make_dependency_info obj =
     sbind (py_get obj ''spec'' (JObj [])) (\<lambda>spec.
     sbind (py_get spec ''dependency_data'' (JObj [])) (\<lambda>dep_data.
     sbind (py_get dep_data ''package_name'' (JStr [])) (\<lambda>pn0.
     sbind (py_get dep_data ''resolved_version'' (JStr [])) (\<lambda>rv.
     sbind (py_get obj ''meta'' (JObj [])) (\<lambda>meta1.
     sbind (py_get meta1 ''create_time'' (JStr [])) (\<lambda>created_str.
     sbind (strip_scheme pn0) (\<lambda>pn.
     sbind (py_get obj ''uuid'' JNull) (\<lambda>u.
     sbind (py_get obj ''meta'' (JObj [])) (\<lambda>meta2.
     sbind (py_get meta2 ''name'' (JStr [])) (\<lambda>nm.
       Inr \<lparr>package_name = pn, resolved_version = rv, created_date = created_str,
            uuid = u, name = nm\<rparr>))))))))))"

section \<open>Output file names\<close>

text \<open>
  \<^verbatim>\<open>date_str.replace('-', '').replace('T', '_').replace(':', '').split('+')[0].split('Z')[0]\<close>
\<close>

definition safe_date :: "string \<Rightarrow> exn + string" where
  "safe_date date_str =
     sbind (index_first (py_split ''+''
              (py_replace '':'' '''' (py_replace ''T'' ''_'' (py_replace ''-'' '''' date_str)))))
       (\<lambda>a. index_first (py_split ''Z'' a))"

text \<open>\<^verbatim>\<open>branch.replace('/', '_').replace('\\', '_').replace(' ', '_')\<close>\<close>

definition safe_branch :: "string \<Rightarrow> string" where
  "safe_branch branch =
     py_replace '' '' ''_'' (py_replace [CHR 0x5C] ''_'' (py_replace ''/'' ''_'' branch))"

text \<open>
  \<^verbatim>\<open>if branch:\<close> on an optional string: \<^verbatim>\<open>None\<close> and the empty string are false.
\<close>

definition branch_given :: "string option \<Rightarrow> bool" where
  "branch_given branch = (case branch of None \<Rightarrow> False | Some b \<Rightarrow> b \<noteq> [])"

definition generate_output_filenames ::
  "string \<Rightarrow> string \<Rightarrow> string option \<Rightarrow> exn + (string \<times> string)" where
  "generate_output_filenames project_uuid date_str branch =
     sbind (safe_date date_str) (\<lambda>sd.
       let base_name =
             (case branch of
                Some b \<Rightarrow>
                  if b \<noteq> []
                  then project_uuid @ ''_new_dependencies_'' @ sd @ ''_'' @ safe_branch b
                  else project_uuid @ ''_new_dependencies_'' @ sd
              | None \<Rightarrow> project_uuid @ ''_new_dependencies_'' @ sd)
       in Inr (base_name @ ''.json'', base_name @ ''.csv''))"

section \<open>Dates and times\<close>

text \<open>
  A \<^verbatim>\<open>datetime\<close> object. \<open>tzinfo\<close> is \<open>None\<close> for a naive value and otherwise the
  UTC offset of a fixed-offset \<^verbatim>\<open>timezone\<close>, in microseconds; \<open>Some 0\<close> is
  \<^verbatim>\<open>timezone.utc\<close>.
\<close>

record datetime =
  year :: int
  month :: int
  day :: int
  hour :: int
  minute :: int
  second :: int
  microsecond :: int
  tzinfo :: "int option"

text \<open>The calendar arithmetic of the standard library's \<^verbatim>\<open>datetime\<close> module.\<close>

definition is_leap :: "int \<Rightarrow> bool" where
  "is_leap y \<longleftrightarrow> y mod 4 = 0 \<and> (y mod 100 \<noteq> 0 \<or> y mod 400 = 0)"

definition DAYS_IN_MONTH :: "int list" where
  "DAYS_IN_MONTH = [-1, 31, 28, 31, 30, 31, 30, 31, 31, 30, 31, 30, 31]"

definition DAYS_BEFORE_MONTH :: "int list" where
  "DAYS_BEFORE_MONTH = [-1, 0, 31, 59, 90, 120, 151, 181, 212, 243, 273, 304, 334]"

definition days_in_month :: "int \<Rightarrow> int \<Rightarrow> int" where
  "days_in_month y m = (if m = 2 \<and> is_leap y then 29 else DAYS_IN_MONTH ! nat m)"

definition days_before_year :: "int \<Rightarrow> int" where
  "days_before_year y =
     (y - 1) * 365 + (y - 1) div 4 - (y - 1) div 100 + (y - 1) div 400"

definition days_before_month :: "int \<Rightarrow> int \<Rightarrow> int" where
  "days_before_month y m =
     DAYS_BEFORE_MONTH ! nat m + (if m > 2 \<and> is_leap y then 1 else 0)"

definition ymd2ord :: "int \<Rightarrow> int \<Rightarrow> int \<Rightarrow> int" where
  "ymd2ord y m d = days_before_year y + days_before_month y m + d"

definition MAXORDINAL :: int where
  "MAXORDINAL = 3652059"

text \<open>
  The end of \<^verbatim>\<open>_ord2ymd\<close>: the month and the day of the month for the zero-based
  day \<open>n\<close> of a year, from the estimate \<^verbatim>\<open>(n + 50) >> 5\<close> of the month, lowered by
  one when it is too large.
\<close>

definition month_day :: "int \<Rightarrow> bool \<Rightarrow> int \<times> int" where
  "month_day n leapyear =
     (let m = (n + 50) div 32;
          preceding = DAYS_BEFORE_MONTH ! nat m + (if m > 2 \<and> leapyear then 1 else 0)
      in if preceding > n
         then (m - 1,
               n - (preceding
                    - (DAYS_IN_MONTH ! nat (m - 1) + (if m - 1 = 2 \<and> leapyear then 1 else 0)))
               + 1)
         else (m, n - preceding + 1))"

definition ord2ymd :: "int \<Rightarrow> int \<times> int \<times> int" where
  "ord2ymd n0 =
     (let n = n0 - 1;
          n400 = n div 146097; n = n mod 146097;
          n100 = n div 36524; n = n mod 36524;
          n4 = n div 1461; n = n mod 1461;
          n1 = n div 365; n = n mod 365;
          y = n400 * 400 + 1 + n100 * 100 + n4 * 4 + n1
      in if n1 = 4 \<or> n100 = 4 then (y - 1, 12, 31)
         else (case month_day n (n1 = 3 \<and> (n4 \<noteq> 24 \<or> n100 = 3)) of (m, d) \<Rightarrow> (y, m, d)))"

text \<open>
  The field checks of the \<^verbatim>\<open>datetime\<close> constructor; each failure is a
  \<^verbatim>\<open>ValueError\<close>.
\<close>

definition check_fields :: "int \<Rightarrow> int \<Rightarrow> int \<Rightarrow> int \<Rightarrow> int \<Rightarrow> int \<Rightarrow> bool" where
  "check_fields y m d hh mm ss \<longleftrightarrow>
     1 \<le> y \<and> y \<le> 9999 \<and> 1 \<le> m \<and> m \<le> 12 \<and> 1 \<le> d \<and> d \<le> days_in_month y m \<and>
     0 \<le> hh \<and> hh \<le> 23 \<and> 0 \<le> mm \<and> mm \<le> 59 \<and> 0 \<le> ss \<and> ss \<le> 59"

definition valid_datetime :: "datetime \<Rightarrow> bool" where
  "valid_datetime dt \<longleftrightarrow>
     check_fields (year dt) (month dt) (day dt) (hour dt) (minute dt) (second dt) \<and>
     0 \<le> microsecond dt \<and> microsecond dt < 1000000 \<and>
     (case tzinfo dt of None \<Rightarrow> True | Some off \<Rightarrow> - 86400000000 < off \<and> off < 86400000000)"

text \<open>
  Microseconds from the start of ordinal day 0 to the wall-clock reading of a value, and
  \<^verbatim>\<open>dt.astimezone(timezone.utc)\<close> on an aware value with offset \<open>off\<close>: the value is
  returned as it is when its zone already is \<^verbatim>\<open>timezone.utc\<close>; otherwise the offset is
  subtracted and the result rebuilt from the day ordinal, with \<^verbatim>\<open>OverflowError\<close> when
  the day leaves the years 1 to 9999.
\<close>

definition wall_micros :: "datetime \<Rightarrow> int" where
  "wall_micros dt =
     ((ymd2ord (year dt) (month dt) (day dt) * 86400
       + hour dt * 3600 + minute dt * 60 + second dt) * 1000000) + microsecond dt"

definition astimezone_utc :: "datetime \<Rightarrow> int \<Rightarrow> exn + datetime" where
  "astimezone_utc dt off =
     (if off = 0 then Inr dt
      else
        let t = wall_micros dt - off;
            days = t div 86400000000;
            secs = (t mod 86400000000) div 1000000;
            us = t mod 1000000
        in if 0 < days \<and> days \<le> MAXORDINAL
           then (case ord2ymd days of (y, m, d) \<Rightarrow>
                   Inr \<lparr>year = y, month = m, day = d,
                        hour = secs div 3600, minute = (secs mod 3600) div 60,
                        second = secs mod 60, microsecond = us, tzinfo = Some 0\<rparr>)
           else Inl OverflowError)"

text \<open>
  \<^verbatim>\<open>strftime("%Y-%m-%d")\<close>. The month and the day are two digits, padded with a
  zero. The year is what the C library prints for \<^verbatim>\<open>%Y\<close>: with glibc the plain
  decimal number, so four digits from the year 1000 on and fewer below it
  (\<^verbatim>\<open>999-01-01\<close>). Python 3.13 and later pad the year to four digits themselves; from
  1000 on the two agree.
\<close>

definition digit_char :: "int \<Rightarrow> char" where
  "digit_char n = ''0123456789'' ! nat n"

definition pad2 :: "int \<Rightarrow> string" where
  "pad2 n = [digit_char (n div 10 mod 10), digit_char (n mod 10)]"

definition pad4 :: "int \<Rightarrow> string" where
  "pad4 n = [digit_char (n div 1000 mod 10), digit_char (n div 100 mod 10),
             digit_char (n div 10 mod 10), digit_char (n mod 10)]"

definition year_text :: "int \<Rightarrow> string" where
  "year_text y =
     (if 1000 \<le> y then pad4 y
      else if 100 \<le> y then drop 1 (pad4 y)
      else if 10 \<le> y then drop 2 (pad4 y)
      else drop 3 (pad4 y))"

definition strftime_date :: "datetime \<Rightarrow> string" where
  "strftime_date dt = year_text (year dt) @ ''-'' @ pad2 (month dt) @ ''-'' @ pad2 (day dt)"

definition format_date_for_api :: "datetime \<Rightarrow> exn + string" where
  "format_date_for_api date_obj =
     sbind (case tzinfo date_obj of
              Some off \<Rightarrow> astimezone_utc date_obj off
            | None \<Rightarrow> Inr date_obj)
       (\<lambda>d. Inr (''date('' @ strftime_date d @ '')''))"

section \<open>Parsing the cutoff date\<close>

text \<open>
  \<^verbatim>\<open>datetime.strptime\<close> turns the format into a regular expression, matches it at the
  start of the text without regard to case, and refuses text left over. A directive is a
  named group with ordered alternatives, each a fixed sequence of character classes; a
  class is given here by its members. A run of white space in the format is
  \<^verbatim>\<open>\s+\<close>; any other character stands for itself.
\<close>

datatype item = Directive char | Literal char | Whitespace

definition digits :: string where
  "digits = ''0123456789''"

definition nonzero :: string where
  "nonzero = ''123456789''"

text \<open>
  The table of \<^verbatim>\<open>_strptime.TimeRE\<close> for the directives the script uses:
  \<^verbatim>\<open>d: 3[0-1]|[1-2]\d|0[1-9]|[1-9]| [1-9]\<close>,
  \<^verbatim>\<open>H: 2[0-3]|[0-1]\d|\d\<close>, \<^verbatim>\<open>M: [0-5]\d|\d\<close>,
  \<^verbatim>\<open>S: 6[0-1]|[0-5]\d|\d\<close>, \<^verbatim>\<open>m: 1[0-2]|0[1-9]|[1-9]\<close>,
  \<^verbatim>\<open>Y: \d\d\d\d\<close>. A letter outside the table is a bad directive, which is a
  \<^verbatim>\<open>ValueError\<close> as a failed match is.
\<close>

definition alternatives :: "char \<Rightarrow> string list list" where
  "alternatives g =
     (if g = CHR ''d'' then
        [[''3'', ''01''], [''12'', digits], [''0'', nonzero], [nonzero], ['' '', nonzero]]
      else if g = CHR ''H'' then [[''2'', ''0123''], [''01'', digits], [digits]]
      else if g = CHR ''M'' then [[''012345'', digits], [digits]]
      else if g = CHR ''S'' then [[''6'', ''01''], [''012345'', digits], [digits]]
      else if g = CHR ''m'' then [[''1'', ''012''], [''0'', nonzero], [nonzero]]
      else if g = CHR ''Y'' then [[digits, digits, digits, digits]]
      else [])"

fun match_alt :: "string list \<Rightarrow> string \<Rightarrow> (string \<times> string) option" where
  "match_alt [] s = Some ([], s)"
| "match_alt (k # ks) [] = None"
| "match_alt (k # ks) (c # s) =
     (if c \<in> set k
      then (case match_alt ks s of None \<Rightarrow> None | Some (m, r) \<Rightarrow> Some (c # m, r))
      else None)"

definition group_matches :: "char \<Rightarrow> string \<Rightarrow> (string \<times> string) list" where
  "group_matches g s = List.map_filter (\<lambda>a. match_alt a s) (alternatives g)"

text \<open>
  White space as \<^verbatim>\<open>\s\<close> sees it among the 256 characters: tab to carriage return,
  the four separators \<open>0x1C\<close> to \<open>0x1F\<close>, the space, \<open>0x85\<close> and \<open>0xA0\<close>.
\<close>

definition is_space :: "char \<Rightarrow> bool" where
  "is_space c \<longleftrightarrow>
     c \<in> set [CHR 0x09, CHR 0x0A, CHR 0x0B, CHR 0x0C, CHR 0x0D, CHR 0x1C, CHR 0x1D,
              CHR 0x1E, CHR 0x1F, CHR 0x20, CHR 0x85, CHR 0xA0]"

definition lower :: "char \<Rightarrow> char" where
  "lower c =
     (case map_of (zip ''ABCDEFGHIJKLMNOPQRSTUVWXYZ'' ''abcdefghijklmnopqrstuvwxyz'') c of
        None \<Rightarrow> c | Some l \<Rightarrow> l)"

fun compile_format :: "string \<Rightarrow> item list" where
  "compile_format [] = []"
| "compile_format [c] = (if is_space c then [Whitespace] else [Literal c])"
| "compile_format (c # d # r) =
     (if c = CHR ''%'' then Directive d # compile_format r
      else if is_space c
      then (if is_space d then compile_format (d # r) else Whitespace # compile_format (d # r))
      else Literal c # compile_format (d # r))"

text \<open>
  All the ways the pattern matches a prefix of the text, in the order a backtracking
  matcher tries them: the alternatives of a group in their order, the longest run of
  white space first. Each comes with the text of its groups and the text left over.
\<close>

fun rx_match :: "item list \<Rightarrow> string \<Rightarrow> ((char \<times> string) list \<times> string) list" where
  "rx_match [] s = [([], s)]"
| "rx_match (Directive g # its) s =
     concat (map (\<lambda>(m, r). map (\<lambda>(caps, rest). ((g, m) # caps, rest)) (rx_match its r))
                 (group_matches g s))"
| "rx_match (Literal c # its) s =
     (case s of [] \<Rightarrow> [] | x # r \<Rightarrow> if lower x = lower c then rx_match its r else [])"
| "rx_match (Whitespace # its) s =
     concat (map (\<lambda>k. rx_match its (drop k s))
                 (rev [1 ..< Suc (length (takeWhile is_space s))]))"

text \<open>
  \<^verbatim>\<open>int(text)\<close> on the text of a group: decimal digits, after the leading space the
  day group may hold.
\<close>

definition digit_val :: "char \<Rightarrow> int" where
  "digit_val c = int (of_char c) - 48"

definition py_int :: "string \<Rightarrow> int" where
  "py_int s = foldl (\<lambda>a c. 10 * a + digit_val c) 0 (dropWhile (\<lambda>c. c = CHR '' '') s)"

definition group_int :: "(char \<times> string) list \<Rightarrow> char \<Rightarrow> int \<Rightarrow> int" where
  "group_int caps g dflt = (case map_of caps g of None \<Rightarrow> dflt | Some s \<Rightarrow> py_int s)"

text \<open>
  \<^verbatim>\<open>datetime.strptime(date_string, fmt)\<close>. The result is naive: none of the formats has
  an offset directive. The messages of the errors are shortened; \<^verbatim>\<open>parse_date\<close>
  discards them.
\<close>

definition strptime :: "string \<Rightarrow> string \<Rightarrow> exn + datetime" where
  "strptime date_string fmt =
     (case rx_match (compile_format fmt) date_string of
        [] \<Rightarrow> Inl (ValueError ''time data does not match format'')
      | (caps, rest) # _ \<Rightarrow>
          if rest \<noteq> [] then Inl (ValueError ''unconverted data remains'')
          else
            let y = group_int caps (CHR ''Y'') 1900; m = group_int caps (CHR ''m'') 1;
                d = group_int caps (CHR ''d'') 1; hh = group_int caps (CHR ''H'') 0;
                mm = group_int caps (CHR ''M'') 0; ss = group_int caps (CHR ''S'') 0
            in if check_fields y m d hh mm ss
               then Inr \<lparr>year = y, month = m, day = d, hour = hh, minute = mm, second = ss,
                        microsecond = 0, tzinfo = None\<rparr>
               else Inl (ValueError ''field out of range''))"

definition date_formats :: "string list" where
  "date_formats =
     [''%Y-%m-%d'', ''%Y-%m-%dT%H:%M:%S'', ''%Y-%m-%dT%H:%M:%SZ'', ''%Y-%m-%d %H:%M:%S'']"

definition unable_to_parse :: "string \<Rightarrow> string" where
  "unable_to_parse date_string =
     ''Unable to parse date: '' @ date_string
     @ ''. Supported formats: YYYY-MM-DD, YYYY-MM-DDTHH:MM:SS, YYYY-MM-DDTHH:MM:SSZ''"

text \<open>
  The loop of \<^verbatim>\<open>parse_date\<close> over the formats: a \<^verbatim>\<open>ValueError\<close> moves on to the
  next format, any other exception leaves the function, and a value without a zone gets
  \<^verbatim>\<open>timezone.utc\<close>.
\<close>

fun try_formats :: "string \<Rightarrow> string list \<Rightarrow> exn + datetime" where
  "try_formats date_string [] = Inl (ValueError (unable_to_parse date_string))"
| "try_formats date_string (fmt # fmts) =
     (case strptime date_string fmt of
        Inr dt \<Rightarrow> Inr (if tzinfo dt = None then dt\<lparr>tzinfo := Some 0\<rparr> else dt)
      | Inl (ValueError msg) \<Rightarrow> try_formats date_string fmts
      | Inl e \<Rightarrow> Inl e)"

definition parse_date :: "string \<Rightarrow> exn + datetime" where
  "parse_date date_string = try_formats date_string date_formats"

section \<open>The paginated query\<close>

text \<open>
  What \<^verbatim>\<open>requests.get\<close> followed by \<^verbatim>\<open>raise_for_status\<close> and
  \<^verbatim>\<open>response.json()\<close> gives: the decoded body, or a \<^verbatim>\<open>RequestException\<close>.
  A request is recorded by its URL, the token put into the \<^verbatim>\<open>Authorization\<close>
  header and the query parameters.
\<close>

datatype response = Failed | Body json

record request =
  url :: string
  bearer :: json
  params :: "(string \<times> json) list"

definition API_URL :: string where
  "API_URL = ''https://api.endorlabs.com/v1''"

text \<open>\<^verbatim>\<open>d[k] = v\<close> on a dict given by its items.\<close>

fun dict_set :: "string \<Rightarrow> json \<Rightarrow> (string \<times> json) list \<Rightarrow> (string \<times> json) list" where
  "dict_set k v [] = [(k, v)]"
| "dict_set k v ((k', v') # r) = (if k' = k then (k, v) # r else (k', v') # dict_set k v r)"

definition context_part :: "string option \<Rightarrow> string" where
  "context_part branch =
     (case branch of
        Some b \<Rightarrow> if b \<noteq> [] then ''context.id=='' @ b else ''context.type==CONTEXT_TYPE_MAIN''
      | None \<Rightarrow> ''context.type==CONTEXT_TYPE_MAIN'')"

definition context_filter :: "string \<Rightarrow> string \<Rightarrow> string option \<Rightarrow> string" where
  "context_filter project_uuid date_str branch =
     ''spec.importer_data.project_uuid=='' @ project_uuid
     @ '' and meta.create_time>='' @ date_str @ '' and '' @ context_part branch"

definition initial_params :: "string \<Rightarrow> (string \<times> json) list" where
  "initial_params flt =
     [(''list_parameters.filter'', JStr flt),
      (''list_parameters.mask'',
       JStr ''meta.name,meta.create_time,spec.dependency_data,spec.importer_data'')]"

text \<open>\<^verbatim>\<open>for obj in objects: ... new_dependencies.append(dependency_info)\<close>\<close>

fun append_objects :: "json list \<Rightarrow> dependency_info list \<Rightarrow> exn + dependency_info list" where
  "append_objects [] acc = Inr acc"
| "append_objects (obj # objs) acc =
     sbind (make_dependency_info obj) (\<lambda>d. append_objects objs (acc @ [d]))"

text \<open>
  The part of the loop body after a successful fetch: the records of the page are
  appended and the next cursor is read. The \<^verbatim>\<open>len(objects)\<close> is the one of the
  progress message.
\<close>

definition page_step :: "json \<Rightarrow> dependency_info list \<Rightarrow> exn + (dependency_info list \<times> json)" where
  "page_step data acc =
     sbind (py_get data ''list'' (JObj [])) (\<lambda>l1.
     sbind (py_get l1 ''objects'' (JArr [])) (\<lambda>objects.
     sbind (py_len objects) (\<lambda>n.
     sbind (py_iter objects) (\<lambda>objs.
     sbind (append_objects objs acc) (\<lambda>acc'.
     sbind (py_get data ''list'' (JObj [])) (\<lambda>l2.
     sbind (py_get l2 ''response'' (JObj [])) (\<lambda>resp.
     sbind (py_get resp ''next_page_id'' JNull) (\<lambda>npi.
       Inr (acc', npi)))))))))"

text \<open>
  The \<^verbatim>\<open>while True\<close> loop, run against the responses the server gives to the
  successive requests. The result is the value returned or the exception that leaves the
  function, with the requests issued; it is \<open>None\<close> when the loop asks for a page beyond
  the given responses.
\<close>

fun fetch_loop ::
  "response list \<Rightarrow> request \<Rightarrow> json \<Rightarrow> dependency_info list \<Rightarrow> request list
   \<Rightarrow> ((exn + dependency_info list) \<times> request list) option" where
  "fetch_loop [] req next_page_id acc sent = None"
| "fetch_loop (r # rs) req next_page_id acc sent =
     (let req' = (if truthy next_page_id
                  then req\<lparr>params := dict_set ''list_parameters.page_id'' next_page_id (params req)\<rparr>
                  else req)
      in case r of
           Failed \<Rightarrow> Some (Inr [], sent @ [req'])
         | Body data \<Rightarrow>
             (case page_step data acc of
                Inl e \<Rightarrow> Some (Inl e, sent @ [req'])
              | Inr (acc', npi) \<Rightarrow>
                  if \<not> truthy npi then Some (Inr acc', sent @ [req'])
                  else fetch_loop rs req' npi acc' (sent @ [req'])))"

definition get_new_dependencies ::
  "string \<Rightarrow> json \<Rightarrow> string \<Rightarrow> datetime \<Rightarrow> string option \<Rightarrow> response list
   \<Rightarrow> ((exn + dependency_info list) \<times> request list) option" where
  "get_new_dependencies namespace token project_uuid cutoff_date branch responses =
     (case format_date_for_api cutoff_date of
        Inl e \<Rightarrow> Some (Inl e, [])
      | Inr date_str \<Rightarrow>
          fetch_loop responses
            \<lparr>url = API_URL @ ''/namespaces/'' @ namespace @ ''/dependency-metadata'',
             bearer = token,
             params = initial_params (context_filter project_uuid date_str branch)\<rparr>
            JNull [] [])"

section \<open>Output and the entry point\<close>

text \<open>
  A written file is kept as the value handed to the serializer: the list given to
  \<^verbatim>\<open>json.dump\<close>, or the rows given to the \<^verbatim>\<open>csv\<close> writer.
\<close>

datatype file_content = JsonDump "dependency_info list" | CsvRows "json list list"

definition csv_header :: "json list" where
  "csv_header =
     [JStr ''package_name'', JStr ''resolved_version'', JStr ''created_date'', JStr ''uuid'',
      JStr ''name'']"

definition write_csv_file :: "dependency_info list \<Rightarrow> file_content" where
  "write_csv_file dependencies =
     (if dependencies = [] then CsvRows [csv_header]
      else CsvRows (csv_header #
             map (\<lambda>d. [package_name d, resolved_version d, created_date d, uuid d, name d])
                 dependencies))"

record args =
  arg_project_uuid :: string
  arg_date :: string
  arg_branch :: "string option"

record env =
  API_KEY :: "string option"
  API_SECRET :: "string option"
  ENDOR_NAMESPACE :: "string option"

text \<open>
  How a run ends: \<^verbatim>\<open>sys.exit(1)\<close>; an exception nobody catches (a traceback and a
  non-zero exit status), with the files written before it; or the normal end (exit status
  0) with the files written, in order.
\<close>

datatype outcome =
    Exit int
  | Uncaught exn "(string \<times> file_content) list"
  | Completed "(string \<times> file_content) list"

text \<open>
  \<^verbatim>\<open>get_env_values\<close>: a variable that is not set or is empty ends the run.
\<close>

definition unset :: "string option \<Rightarrow> bool" where
  "unset v = (case v of None \<Rightarrow> True | Some s \<Rightarrow> s = [])"

definition get_env_values :: "env \<Rightarrow> outcome + (string \<times> string \<times> string)" where
  "get_env_values e =
     (case (API_KEY e, API_SECRET e, ENDOR_NAMESPACE e) of
        (Some k, Some sec, Some ns) \<Rightarrow>
          if k = [] \<or> sec = [] \<or> ns = [] then Inl (Exit 1) else Inr (k, sec, ns)
      | _ \<Rightarrow> Inl (Exit 1))"

text \<open>
  \<^verbatim>\<open>get_token\<close>, given the answer of the authentication endpoint: \<open>Inl\<close> is the
  outcome that ends the run, \<open>Inr\<close> the token returned.
\<close>

definition get_token :: "response \<Rightarrow> outcome + json" where
  "get_token auth =
     (case auth of
        Failed \<Rightarrow> Inl (Exit 1)
      | Body j \<Rightarrow> (case py_get j ''token'' JNull of Inl e \<Rightarrow> Inl (Uncaught e []) | Inr t \<Rightarrow> Inr t))"

text \<open>
  The entry point. The file system is given by \<open>writable\<close>: whether
  \<^verbatim>\<open>open(name, 'w')\<close> succeeds for a name (writing to a file that is open is taken
  to succeed); where it does not, \<^verbatim>\<open>OSError\<close> leaves \<^verbatim>\<open>main\<close>, which catches
  nothing there, and the file is not created. The JSON file is written before the CSV
  file is opened.
\<close>

definition main ::
  "(string \<Rightarrow> bool) \<Rightarrow> args \<Rightarrow> env \<Rightarrow> response \<Rightarrow> response list \<Rightarrow> outcome option" where
  "main writable a e auth responses =
     (case parse_date (arg_date a) of
        Inl (ValueError msg) \<Rightarrow> Some (Exit 1)
      | Inl ex \<Rightarrow> Some (Uncaught ex [])
      | Inr cutoff_date \<Rightarrow>
          (case get_env_values e of
             Inl out \<Rightarrow> Some out
           | Inr (api_key, api_secret, namespace) \<Rightarrow>
               (case get_token auth of
                  Inl out \<Rightarrow> Some out
                | Inr token \<Rightarrow>
                    if \<not> truthy token then Some (Exit 1)
                    else
                      (case get_new_dependencies namespace token
                              (arg_project_uuid a) cutoff_date (arg_branch a) responses of
                         None \<Rightarrow> None
                       | Some (Inl ex, sent) \<Rightarrow> Some (Uncaught ex [])
                       | Some (Inr new_dependencies, sent) \<Rightarrow>
                           (case generate_output_filenames (arg_project_uuid a) (arg_date a)
                                   (arg_branch a) of
                              Inl ex \<Rightarrow> Some (Uncaught ex [])
                            | Inr (json_filename, csv_filename) \<Rightarrow>
                                if \<not> writable json_filename then Some (Uncaught OSError [])
                                else if \<not> writable csv_filename
                                then Some (Uncaught OSError
                                             [(json_filename, JsonDump new_dependencies)])
                                else Some (Completed
                                  [(json_filename, JsonDump new_dependencies),
                                   (csv_filename, write_csv_file new_dependencies)]))))))"

section \<open>Vocabulary of the properties\<close>

text \<open>
  The value found by following keys through nested dicts; \<open>None\<close> when a key is missing
  or a value on the way is not a dict.
\<close>

fun lookup_path :: "string list \<Rightarrow> json \<Rightarrow> json option" where
  "lookup_path [] j = Some j"
| "lookup_path (k # ks) (JObj kv) =
     (case map_of kv k of None \<Rightarrow> None | Some v \<Rightarrow> lookup_path ks v)"
| "lookup_path (k # ks) _ = None"

fun is_obj :: "json \<Rightarrow> bool" where
  "is_obj (JObj kv) = True"
| "is_obj _ = False"

fun is_arr :: "json \<Rightarrow> bool" where
  "is_arr (JArr xs) = True"
| "is_arr _ = False"

fun is_str :: "json \<Rightarrow> bool" where
  "is_str (JStr s) = True"
| "is_str _ = False"

definition absent_or :: "(json \<Rightarrow> bool) \<Rightarrow> json option \<Rightarrow> bool" where
  "absent_or P v = (case v of None \<Rightarrow> True | Some x \<Rightarrow> P x)"

definition or_empty :: "json option \<Rightarrow> json" where
  "or_empty v = (case v of None \<Rightarrow> JStr [] | Some x \<Rightarrow> x)"

text \<open>
  An API object of the shape the endpoint documents: a dict whose \<open>spec\<close>,
  \<open>spec.dependency_data\<close> and \<open>meta\<close>, where present, are dicts, and whose package name,
  where present, is a string.
\<close>

definition well_formed_object :: "json \<Rightarrow> bool" where
  "well_formed_object obj \<longleftrightarrow>
     is_obj obj \<and>
     absent_or is_obj (lookup_path [''spec''] obj) \<and>
     absent_or is_obj (lookup_path [''spec'', ''dependency_data''] obj) \<and>
     absent_or is_str (lookup_path [''spec'', ''dependency_data'', ''package_name''] obj) \<and>
     absent_or is_obj (lookup_path [''meta''] obj)"

text \<open>
  A response body of the documented shape: a dict whose \<open>list\<close> and \<open>list.response\<close>,
  where present, are dicts and whose \<open>list.objects\<close>, where present, is a list of
  well-formed objects. Its objects and its continuation cursor.
\<close>

definition objects_of :: "json \<Rightarrow> json list" where
  "objects_of data =
     (case lookup_path [''list'', ''objects''] data of Some (JArr objs) \<Rightarrow> objs | _ \<Rightarrow> [])"

definition cursor_of :: "json \<Rightarrow> json" where
  "cursor_of data =
     (case lookup_path [''list'', ''response'', ''next_page_id''] data of
        None \<Rightarrow> JNull | Some c \<Rightarrow> c)"

definition well_formed_page :: "json \<Rightarrow> bool" where
  "well_formed_page data \<longleftrightarrow>
     is_obj data \<and>
     absent_or is_obj (lookup_path [''list''] data) \<and>
     absent_or is_arr (lookup_path [''list'', ''objects''] data) \<and>
     absent_or is_obj (lookup_path [''list'', ''response''] data) \<and>
     list_all well_formed_object (objects_of data)"

text \<open>The request that carries a cursor.\<close>

definition with_cursor :: "request \<Rightarrow> json \<Rightarrow> request" where
  "with_cursor req c = req\<lparr>params := dict_set ''list_parameters.page_id'' c (params req)\<rparr>"

text \<open>
  The request a turn of the loop sends, given the request and the cursor it starts with,
  and the requests of the successive turns, given the cursors the responses return.
\<close>

definition step_req :: "request \<Rightarrow> json \<Rightarrow> request" where
  "step_req req c = (if truthy c then with_cursor req c else req)"

fun req_seq :: "request \<Rightarrow> json \<Rightarrow> json list \<Rightarrow> request list" where
  "req_seq req c [] = [step_req req c]"
| "req_seq req c (c' # cs) = step_req req c # req_seq (step_req req c) c' cs"

definition first_request :: "string \<Rightarrow> json \<Rightarrow> string \<Rightarrow> string \<Rightarrow> string option \<Rightarrow> request" where
  "first_request namespace token project_uuid date_str branch =
     \<lparr>url = API_URL @ ''/namespaces/'' @ namespace @ ''/dependency-metadata'',
      bearer = token,
      params = initial_params (context_filter project_uuid date_str branch)\<rparr>"

text \<open>
  The specification's wording of the package name rule: the text after the first
  occurrence of the separator, and the text itself when the separator does not occur.
\<close>

fun after_first_occurrence :: "string \<Rightarrow> string \<Rightarrow> string" where
  "after_first_occurrence sep [] = []"
| "after_first_occurrence sep (c # cs) =
     (if prefix sep (c # cs) then drop (length sep) (c # cs)
      else after_first_occurrence sep cs)"

definition spec_package_name :: "string \<Rightarrow> string" where
  "spec_package_name s = (if contains_str ''://'' s then after_first_occurrence ''://'' s else s)"

text \<open>
  The specification's wording of the date part of a file name: the text before the zone
  marker or offset, without hyphens, colons and the letter T.
\<close>

definition spec_sanitized_date :: "string \<Rightarrow> string" where
  "spec_sanitized_date d =
     filter (\<lambda>c. c \<notin> set ''-:T'') (takeWhile (\<lambda>c. c \<notin> set ''+Z'') d)"

text \<open>The zero-padded texts of a date and of a time of day.\<close>

definition iso_date :: "int \<Rightarrow> int \<Rightarrow> int \<Rightarrow> string" where
  "iso_date y m d = pad4 y @ ''-'' @ pad2 m @ ''-'' @ pad2 d"

definition iso_time :: "int \<Rightarrow> int \<Rightarrow> int \<Rightarrow> string" where
  "iso_time hh mm ss = pad2 hh @ '':'' @ pad2 mm @ '':'' @ pad2 ss"

definition utc_instant :: "int \<Rightarrow> int \<Rightarrow> int \<Rightarrow> int \<Rightarrow> int \<Rightarrow> int \<Rightarrow> datetime" where
  "utc_instant y m d hh mm ss =
     \<lparr>year = y, month = m, day = d, hour = hh, minute = mm, second = ss, microsecond = 0,
      tzinfo = Some 0\<rparr>"

section \<open>Example data\<close>

text \<open>
  A run on the project \<^verbatim>\<open>abc-123\<close> with the cutoff \<^verbatim>\<open>2024-01-01\<close> on the main
  context, and two pages of one object each, the first with a cursor.
\<close>

definition example_args :: args where
  "example_args = \<lparr>arg_project_uuid = ''abc-123'', arg_date = ''2024-01-01'', arg_branch = None\<rparr>"

definition example_env :: env where
  "example_env = \<lparr>API_KEY = Some ''key'', API_SECRET = Some ''secret'', ENDOR_NAMESPACE = Some ''ns''\<rparr>"

definition example_auth :: response where
  "example_auth = Body (JObj [(''token'', JStr ''tok'')])"

definition example_page1 :: json where
  "example_page1 =
     JObj [(''list'',
            JObj [(''objects'',
                   JArr [JObj [(''uuid'', JStr ''u1''),
                               (''meta'', JObj [(''name'', JStr ''n1''),
                                               (''create_time'', JStr ''2024-02-01T10:00:00Z'')]),
                               (''spec'', JObj [(''dependency_data'',
                                  JObj [(''package_name'', JStr ''npm://foo''),
                                        (''resolved_version'', JStr ''1.2.3'')])])]]),
                  (''response'', JObj [(''next_page_id'', JStr ''page2'')])])]"

definition example_page2 :: json where
  "example_page2 =
     JObj [(''list'',
            JObj [(''objects'',
                   JArr [JObj [(''uuid'', JStr ''u2''),
                               (''meta'', JObj [(''name'', JStr ''n2'')]),
                               (''spec'', JObj [(''dependency_data'',
                                  JObj [(''package_name'', JStr ''left-pad'')])])]]),
                  (''response'', JObj [])])]"

definition example_request :: request where
  "example_request =
     \<lparr>url = ''https://api.endorlabs.com/v1/namespaces/ns/dependency-metadata'',
      bearer = JStr ''tok'',
      params =
        [(''list_parameters.filter'',
          JStr ''spec.importer_data.project_uuid==abc-123 and meta.create_time>=date(2024-01-01) and context.type==CONTEXT_TYPE_MAIN''),
         (''list_parameters.mask'',
          JStr ''meta.name,meta.create_time,spec.dependency_data,spec.importer_data'')]\<rparr>"

text \<open>
  A file system that takes every name, and one in which the directory
  \<^verbatim>\<open>no_such_dir\<close> does not exist.
\<close>

definition any_name :: "string \<Rightarrow> bool" where
  "any_name file_name = True"

definition no_such_dir :: "string \<Rightarrow> bool" where
  "no_such_dir file_name = (\<not> prefix ''no_such_dir/'' file_name)"


section \<open>Properties of the string methods\<close>

lemma py_split_nonempty: "py_split sep s \<noteq> []"
  by (induction sep s rule: py_split.induct) (auto split: list.splits)

lemma py_replace_char:
  "py_replace [c] new s = concat (map (\<lambda>x. if x = c then new else [x]) s)"
  by (induction s) auto

lemma py_replace_char_delete: "py_replace [c] [] s = filter (\<lambda>x. x \<noteq> c) s"
  by (induction s) auto

lemma py_replace_char_char: "py_replace [c] [d] s = map (\<lambda>x. if x = c then d else x) s"
  by (induction s) auto

lemma index_first_split_char:
  "index_first (py_split [c] s) = Inr (takeWhile (\<lambda>x. x \<noteq> c) s)"
  by (induction s) (auto simp: index_first_def split: list.splits)

lemma contains_str_iff: "contains_str sub s \<longleftrightarrow> (\<exists>a b. s = a @ sub @ b)"
proof (induction s)
  case Nil
  then show ?case by auto
next
  case (Cons c cs)
  show ?case
  proof
    assume "contains_str sub (c # cs)"
    then consider "prefix sub (c # cs)" | "contains_str sub cs" by auto
    then show "\<exists>a b. c # cs = a @ sub @ b"
    proof cases
      case 1
      then obtain b where "c # cs = sub @ b" by (auto simp: prefix_def)
      then have "c # cs = [] @ sub @ b" by simp
      then show ?thesis by blast
    next
      case 2
      with Cons.IH obtain a b where "cs = a @ sub @ b" by blast
      then have "c # cs = (c # a) @ sub @ b" by simp
      then show ?thesis by blast
    qed
  next
    assume "\<exists>a b. c # cs = a @ sub @ b"
    then obtain a b where ab: "c # cs = a @ sub @ b" by blast
    show "contains_str sub (c # cs)"
    proof (cases a)
      case Nil
      with ab have "prefix sub (c # cs)" by (simp add: prefix_def)
      then show ?thesis by simp
    next
      case (Cons x a')
      with ab have "cs = a' @ sub @ b" by simp
      with Cons.IH have "contains_str sub cs" by blast
      then show ?thesis by simp
    qed
  qed
qed

lemma py_split_absent: "\<not> contains_str sep s \<Longrightarrow> py_split sep s = [s]"
  by (induction s) auto

lemma sbind_Inr [simp]: "sbind (Inr v) f = f v"
  by (simp add: sbind_def)

lemma sbind_Inl [simp]: "sbind (Inl e) f = Inl e"
  by (simp add: sbind_def)

lemma strip_scheme_absent: "\<not> contains_str ''://'' s \<Longrightarrow> strip_scheme (JStr s) = Inr (JStr s)"
  by (simp add: strip_scheme_def)

lemma strip_scheme_empty: "strip_scheme (JStr []) = Inr (JStr [])"
  by (simp add: strip_scheme_def)

lemma prefix_scheme_cases:
  assumes "prefix ''://'' (p @ ''://'' @ t)"
  shows "p = [] \<or> (\<exists>p'. p = ''://'' @ p')"
proof (cases p)
  case Nil then show ?thesis by simp
next
  case (Cons a p1)
  show ?thesis
  proof (cases p1)
    case Nil with Cons assms show ?thesis by simp
  next
    case (Cons b p2)
    note c2 = this
    show ?thesis
    proof (cases p2)
      case Nil with c2 \<open>p = a # p1\<close> assms show ?thesis by simp
    next
      case (Cons c p3)
      with c2 \<open>p = a # p1\<close> assms show ?thesis by auto
    qed
  qed
qed

lemma split_scheme_last:
  assumes "\<not> contains_str ''://'' t"
  shows "\<exists>pre. pre \<noteq> [] \<and> py_split ''://'' (p @ ''://'' @ t) = pre @ [t]"
proof (induction p rule: length_induct)
  case (1 p)
  show ?case
  proof (cases "prefix ''://'' (p @ ''://'' @ t)")
    case True
    from prefix_scheme_cases[OF True] show ?thesis
    proof
      assume "p = []"
      then have "py_split ''://'' (p @ ''://'' @ t) = [[]] @ [t]"
        using assms by (simp add: py_split_absent)
      then show ?thesis by blast
    next
      assume "\<exists>p'. p = ''://'' @ p'"
      then obtain p' where p: "p = ''://'' @ p'" by blast
      then have "length p' < length p" by simp
      with 1 obtain pre where pre: "pre \<noteq> []" "py_split ''://'' (p' @ ''://'' @ t) = pre @ [t]"
        by blast
      from p pre have "py_split ''://'' (p @ ''://'' @ t) = ([] # pre) @ [t]" by simp
      then show ?thesis by blast
    qed
  next
    case False
    then obtain c p' where p: "p = c # p'" by (cases p) auto
    then have "length p' < length p" by simp
    with 1 obtain pre where pre: "pre \<noteq> []" "py_split ''://'' (p' @ ''://'' @ t) = pre @ [t]"
      by blast
    then obtain x xs where x: "pre = x # xs" by (cases pre) auto
    from False p pre x have "py_split ''://'' (p @ ''://'' @ t) = ((c # x) # xs) @ [t]" by simp
    then show ?thesis by blast
  qed
qed

lemma index_last_split_scheme:
  assumes "\<not> contains_str ''://'' t"
  shows "index_last (py_split ''://'' (p @ ''://'' @ t)) = Inr t"
proof -
  from split_scheme_last[OF assms, of p] obtain pre where
    "pre \<noteq> []" "py_split ''://'' (p @ ''://'' @ t) = pre @ [t]" by blast
  then show ?thesis by (cases pre) (auto simp: index_last_def)
qed

lemma strip_scheme_last:
  assumes "\<not> contains_str ''://'' t"
  shows "strip_scheme (JStr (p @ ''://'' @ t)) = Inr (JStr t)"
proof -
  have c: "contains_str ''://'' (p @ ''://'' @ t)"
    unfolding contains_str_iff by blast
  then have "p @ ''://'' @ t \<noteq> []" by auto
  with c show ?thesis
    unfolding strip_scheme_def
    by (simp only: truthy.simps py_in.simps split_method.simps sbind_Inr if_True simp_thms
        index_last_split_scheme[OF assms])
qed

lemma py_get_leaf:
  "py_get (JObj kv) k d = Inr (case lookup_path [k] (JObj kv) of None \<Rightarrow> d | Some v \<Rightarrow> v)"
  by (simp split: option.splits)

lemma py_get_sub:
  assumes "is_obj obj" and "absent_or is_obj (lookup_path [k] obj)"
  obtains kv' where "py_get obj k (JObj []) = Inr (JObj kv')"
    and "\<And>k2 ks. lookup_path (k # k2 # ks) obj = lookup_path (k2 # ks) (JObj kv')"
proof -
  from assms(1) obtain kv where obj: "obj = JObj kv" by (cases obj) auto
  show thesis
  proof (cases "map_of kv k")
    case None
    then have "py_get obj k (JObj []) = Inr (JObj [])"
      and "\<And>k2 ks. lookup_path (k # k2 # ks) obj = lookup_path (k2 # ks) (JObj [])"
      by (simp_all add: obj)
    then show thesis by (rule that)
  next
    case (Some v)
    with assms(2) obtain kv' where v: "v = JObj kv'"
      by (cases v) (auto simp: obj absent_or_def)
    from Some v have "py_get obj k (JObj []) = Inr (JObj kv')"
      and "\<And>k2 ks. lookup_path (k # k2 # ks) obj = lookup_path (k2 # ks) (JObj kv')"
      by (simp_all add: obj)
    then show thesis by (rule that)
  qed
qed

text \<open>What the loop body computes on a well-formed object.\<close>

lemma make_dependency_info_well_formed:
  assumes "well_formed_object obj"
  shows "make_dependency_info obj =
     sbind (strip_scheme (or_empty (lookup_path [''spec'', ''dependency_data'', ''package_name''] obj)))
       (\<lambda>pn. Inr \<lparr>package_name = pn,
          resolved_version = or_empty (lookup_path [''spec'', ''dependency_data'', ''resolved_version''] obj),
          created_date = or_empty (lookup_path [''meta'', ''create_time''] obj),
          uuid = (case lookup_path [''uuid''] obj of None \<Rightarrow> JNull | Some u \<Rightarrow> u),
          name = or_empty (lookup_path [''meta'', ''name''] obj)\<rparr>)"
proof -
  from assms have o: "is_obj obj"
    and s: "absent_or is_obj (lookup_path [''spec''] obj)"
    and d: "absent_or is_obj (lookup_path [''spec'', ''dependency_data''] obj)"
    and m: "absent_or is_obj (lookup_path [''meta''] obj)"
    by (simp_all add: well_formed_object_def)
  from o obtain kv where obj: "obj = JObj kv" by (cases obj) auto
  from py_get_sub[OF o s] obtain skv where
    g1: "py_get obj ''spec'' (JObj []) = Inr (JObj skv)" and
    l1: "\<And>k2 ks. lookup_path (''spec'' # k2 # ks) obj = lookup_path (k2 # ks) (JObj skv)"
    by blast
  from d have d': "absent_or is_obj (lookup_path [''dependency_data''] (JObj skv))"
    by (simp only: l1)
  from py_get_sub[OF _ d'] obtain dkv where
    g2: "py_get (JObj skv) ''dependency_data'' (JObj []) = Inr (JObj dkv)" and
    l2: "\<And>k2 ks. lookup_path (''dependency_data'' # k2 # ks) (JObj skv)
           = lookup_path (k2 # ks) (JObj dkv)"
    by auto
  from py_get_sub[OF o m] obtain mkv where
    g3: "py_get obj ''meta'' (JObj []) = Inr (JObj mkv)" and
    l3: "\<And>k2 ks. lookup_path (''meta'' # k2 # ks) obj = lookup_path (k2 # ks) (JObj mkv)"
    by blast
  have g4: "py_get obj ''uuid'' JNull
      = Inr (case lookup_path [''uuid''] obj of None \<Rightarrow> JNull | Some u \<Rightarrow> u)"
    unfolding obj by (rule py_get_leaf)
  show ?thesis
    unfolding make_dependency_info_def
    apply (simp only: g1 g2 g3 g4 sbind_Inr)
    apply (simp only: py_get_leaf sbind_Inr l1 l2 l3 or_empty_def)
    done
qed

section \<open>The dependency record: properties\<close>

lemma strip_scheme_str_total: "\<exists>l. strip_scheme (JStr s) = Inr (JStr l)"
proof -
  obtain x xs where "py_split ''://'' s = x # xs"
    using py_split_nonempty[of "''://''" s] by (cases "py_split ''://'' s") auto
  then show ?thesis
    by (simp add: strip_scheme_def index_last_def)
qed

text \<open>
  Claim C3, as the code has it. For a well-formed object whose package name is the string
  \<open>s\<close>, the record is built, a name without \<^verbatim>\<open>://\<close> is kept unchanged, and a
  name with it is cut after the last occurrence: whenever \<open>s\<close> is \<open>p\<close>, the separator
  and a text \<open>t\<close> free of the separator, the record holds \<open>t\<close>.
\<close>

theorem package_name_after_last_occurrence:
  assumes "well_formed_object obj"
    and "lookup_path [''spec'', ''dependency_data'', ''package_name''] obj = Some (JStr s)"
  shows "\<exists>r. make_dependency_info obj = Inr r \<and>
           (\<not> contains_str ''://'' s \<longrightarrow> package_name r = JStr s) \<and>
           (\<forall>p t. s = p @ ''://'' @ t \<and> \<not> contains_str ''://'' t \<longrightarrow> package_name r = JStr t)"
proof -
  obtain l where l: "strip_scheme (JStr s) = Inr (JStr l)"
    using strip_scheme_str_total by blast
  let ?r = "\<lparr>package_name = JStr l,
      resolved_version = or_empty (lookup_path [''spec'', ''dependency_data'', ''resolved_version''] obj),
      created_date = or_empty (lookup_path [''meta'', ''create_time''] obj),
      uuid = (case lookup_path [''uuid''] obj of None \<Rightarrow> JNull | Some u \<Rightarrow> u),
      name = or_empty (lookup_path [''meta'', ''name''] obj)\<rparr>"
  have r: "make_dependency_info obj = Inr ?r"
    by (simp add: make_dependency_info_well_formed[OF assms(1)] assms(2) or_empty_def l)
  have a: "\<not> contains_str ''://'' s \<longrightarrow> l = s"
    using l by (auto simp: strip_scheme_absent)
  have b: "\<forall>p t. s = p @ ''://'' @ t \<and> \<not> contains_str ''://'' t \<longrightarrow> l = t"
  proof (intro allI impI)
    fix p t
    assume h: "s = p @ ''://'' @ t \<and> \<not> contains_str ''://'' t"
    then have "strip_scheme (JStr s) = Inr (JStr t)"
      using strip_scheme_last[of t p] by simp
    with l show "l = t" by simp
  qed
  from r a b show ?thesis by simp
qed

theorem package_name_after_last_occurrence_witness:
  "well_formed_object
     (JObj [(''spec'', JObj [(''dependency_data'', JObj [(''package_name'', JStr ''npm://left-pad'')])])]) \<and>
   (\<exists>r. make_dependency_info
      (JObj [(''spec'', JObj [(''dependency_data'', JObj [(''package_name'', JStr ''npm://left-pad'')])])])
        = Inr r \<and> package_name r = JStr ''left-pad'')"
proof -
  let ?obj = "JObj [(''spec'', JObj [(''dependency_data'', JObj [(''package_name'', JStr ''npm://left-pad'')])])]"
  have w: "well_formed_object ?obj"
    by (simp add: well_formed_object_def absent_or_def)
  have p: "lookup_path [''spec'', ''dependency_data'', ''package_name''] ?obj = Some (JStr ''npm://left-pad'')"
    by simp
  have n: "\<not> contains_str ''://'' ''left-pad''" by simp
  have e: "''npm://left-pad'' = ''npm'' @ ''://'' @ ''left-pad''" by simp
  from package_name_after_last_occurrence[OF w p] n e w show ?thesis
    by blast
qed

text \<open>
  The claim's wording cuts after the first occurrence. On \<^verbatim>\<open>a://b://c\<close> the code
  yields \<^verbatim>\<open>c\<close>, the wording \<^verbatim>\<open>b://c\<close>.
\<close>

theorem package_name_first_occurrence_counterexample:
  "map_sum id package_name
     (make_dependency_info
        (JObj [(''spec'', JObj [(''dependency_data'', JObj [(''package_name'', JStr ''a://b://c'')])])]))
     = Inr (JStr ''c'') \<and>
   map_sum id package_name
     (make_dependency_info
        (JObj [(''spec'', JObj [(''dependency_data'', JObj [(''package_name'', JStr ''a://b://c'')])])]))
     \<noteq> Inr (JStr (spec_package_name ''a://b://c'')) \<and>
   spec_package_name ''a://b://c'' = ''b://c''"
  by (simp add: make_dependency_info_def strip_scheme_def index_last_def spec_package_name_def)

text \<open>
  Claim C8. For a well-formed object the record is built; \<open>created_date\<close> is the value
  of \<open>meta.create_time\<close> as it came, and each of \<open>create_time\<close>, \<open>resolved_version\<close>,
  \<open>meta.name\<close> and \<open>package_name\<close> that is missing gives the empty string.
\<close>

theorem missing_fields_default_to_empty:
  assumes "well_formed_object obj"
  shows "\<exists>r. make_dependency_info obj = Inr r \<and>
           created_date r = or_empty (lookup_path [''meta'', ''create_time''] obj) \<and>
           resolved_version r
             = or_empty (lookup_path [''spec'', ''dependency_data'', ''resolved_version''] obj) \<and>
           name r = or_empty (lookup_path [''meta'', ''name''] obj) \<and>
           (lookup_path [''spec'', ''dependency_data'', ''package_name''] obj = None
              \<longrightarrow> package_name r = JStr [])"
proof (cases "lookup_path [''spec'', ''dependency_data'', ''package_name''] obj")
  case None
  then show ?thesis
    by (simp add: make_dependency_info_well_formed[OF assms] or_empty_def strip_scheme_empty)
next
  case (Some v)
  with assms obtain s where v: "v = JStr s"
    by (cases v) (auto simp: well_formed_object_def absent_or_def)
  obtain l where l: "strip_scheme (JStr s) = Inr (JStr l)"
    using strip_scheme_str_total by blast
  from Some v l show ?thesis
    by (simp add: make_dependency_info_well_formed[OF assms] or_empty_def)
qed

theorem missing_fields_default_to_empty_witness:
  "well_formed_object (JObj [(''meta'', JObj [(''create_time'', JStr ''2024-03-01T12:00:00Z'')])]) \<and>
   (\<exists>r. make_dependency_info (JObj [(''meta'', JObj [(''create_time'', JStr ''2024-03-01T12:00:00Z'')])])
           = Inr r \<and>
         created_date r = JStr ''2024-03-01T12:00:00Z'' \<and> resolved_version r = JStr [] \<and>
         name r = JStr [] \<and> package_name r = JStr [])"
proof -
  let ?obj = "JObj [(''meta'', JObj [(''create_time'', JStr ''2024-03-01T12:00:00Z'')])]"
  have w: "well_formed_object ?obj"
    by (simp add: well_formed_object_def absent_or_def)
  from missing_fields_default_to_empty[OF w] w show ?thesis
    by (simp add: or_empty_def)
qed

text \<open>
  Claim C9. On an object without a top-level \<open>uuid\<close> the record's \<open>uuid\<close> is
  \<^verbatim>\<open>None\<close>, not a string, while the missing \<open>meta.name\<close> beside it is the empty
  string.
\<close>

theorem missing_uuid_is_none:
  "map_sum id (\<lambda>r. (uuid r, is_str (uuid r), name r))
     (make_dependency_info
        (JObj [(''meta'', JObj [(''create_time'', JStr ''2024-03-01T12:00:00Z'')]),
               (''spec'', JObj [(''dependency_data'', JObj [(''package_name'', JStr ''npm://left-pad'')])])]))
   = Inr (JNull, False, JStr [])"
  by (simp add: make_dependency_info_def strip_scheme_def index_last_def)

section \<open>Output file names: properties\<close>

lemma takeWhile_twice:
  "takeWhile P (takeWhile Q xs) = takeWhile (\<lambda>x. Q x \<and> P x) xs"
  by (induction xs) auto

lemma safe_date_closed_form:
  "safe_date date_str =
     Inr (takeWhile (\<lambda>c. c \<noteq> CHR ''+'' \<and> c \<noteq> CHR ''Z'')
            (map (\<lambda>c. if c = CHR ''T'' then CHR ''_'' else c)
               (filter (\<lambda>c. c \<noteq> CHR ''-'' \<and> c \<noteq> CHR '':'') date_str)))"
proof -
  have "filter (\<lambda>x. x \<noteq> CHR '':'') (map (\<lambda>x. if x = CHR ''T'' then CHR ''_'' else x)
          (filter (\<lambda>x. x \<noteq> CHR ''-'') date_str))
        = map (\<lambda>c. if c = CHR ''T'' then CHR ''_'' else c)
            (filter (\<lambda>c. c \<noteq> CHR ''-'' \<and> c \<noteq> CHR '':'') date_str)"
    by (induction date_str) auto
  then show ?thesis
    by (simp add: safe_date_def py_replace_char_delete py_replace_char_char
        index_first_split_char takeWhile_twice)
qed

lemma safe_branch_closed_form:
  "safe_branch b =
     map (\<lambda>c. if c = CHR ''/'' \<or> c = CHR 0x5C \<or> c = CHR '' '' then CHR ''_'' else c) b"
  by (simp add: safe_branch_def py_replace_char_char)

text \<open>
  Claim C4, as the code has it. The names are a function of the project UUID, the raw date
  text and the optional branch alone, and the function always returns. The date part is
  the raw text without hyphens and colons, with every \<^verbatim>\<open>T\<close> turned into an
  underscore, cut before the first \<^verbatim>\<open>+\<close> or \<^verbatim>\<open>Z\<close>. A branch that is given
  and not empty adds an underscore and the branch text with every slash, backslash and
  space turned into an underscore; without it there is no suffix. The two names are the
  base with \<^verbatim>\<open>.json\<close> and with \<^verbatim>\<open>.csv\<close>.
\<close>

theorem generate_output_filenames_closed_form:
  "generate_output_filenames project_uuid date_str branch =
     (let sanitized_date =
            takeWhile (\<lambda>c. c \<noteq> CHR ''+'' \<and> c \<noteq> CHR ''Z'')
              (map (\<lambda>c. if c = CHR ''T'' then CHR ''_'' else c)
                 (filter (\<lambda>c. c \<noteq> CHR ''-'' \<and> c \<noteq> CHR '':'') date_str));
          suffix =
            (case branch of
               None \<Rightarrow> []
             | Some b \<Rightarrow>
                 if b = [] then []
                 else ''_'' @ map (\<lambda>c. if c = CHR ''/'' \<or> c = CHR 0x5C \<or> c = CHR '' ''
                                       then CHR ''_'' else c) b);
          base = project_uuid @ ''_new_dependencies_'' @ sanitized_date @ suffix
      in Inr (base @ ''.json'', base @ ''.csv''))"
  by (simp add: generate_output_filenames_def safe_date_closed_form safe_branch_closed_form
      Let_def split: option.splits)

theorem generate_output_filenames_closed_form_witness:
  "generate_output_filenames ''abc-123'' ''2024-01-01'' None
     = Inr (''abc-123_new_dependencies_20240101.json'', ''abc-123_new_dependencies_20240101.csv'') \<and>
   generate_output_filenames ''abc-123'' ''2024-01-01T00:00:00Z'' (Some ''feature/x y'')
     = Inr (''abc-123_new_dependencies_20240101_000000_feature_x_y.json'',
            ''abc-123_new_dependencies_20240101_000000_feature_x_y.csv'')"
  using generate_output_filenames_closed_form[of "''abc-123''" "''2024-01-01''" None]
    generate_output_filenames_closed_form[of "''abc-123''" "''2024-01-01T00:00:00Z''" "Some ''feature/x y''"]
  by simp

text \<open>
  The claim's wording strips the letter T. On \<^verbatim>\<open>2024-01-01T00:00:00Z\<close> the code
  keeps an underscore in its place, so the names differ from the ones the wording gives.
\<close>

theorem filename_keeps_T_as_underscore_counterexample:
  "generate_output_filenames ''abc-123'' ''2024-01-01T00:00:00Z'' None
     = Inr (''abc-123_new_dependencies_20240101_000000.json'',
            ''abc-123_new_dependencies_20240101_000000.csv'') \<and>
   generate_output_filenames ''abc-123'' ''2024-01-01T00:00:00Z'' None
     \<noteq> Inr (''abc-123_new_dependencies_'' @ spec_sanitized_date ''2024-01-01T00:00:00Z'' @ ''.json'',
            ''abc-123_new_dependencies_'' @ spec_sanitized_date ''2024-01-01T00:00:00Z'' @ ''.csv'')"
  by (simp add: generate_output_filenames_def safe_date_def index_first_def spec_sanitized_date_def)

section \<open>The paginated query: properties\<close>

lemma make_dependency_info_total:
  assumes "well_formed_object obj"
  shows "\<exists>r. make_dependency_info obj = Inr r"
proof (cases "lookup_path [''spec'', ''dependency_data'', ''package_name''] obj")
  case None
  then show ?thesis
    by (simp add: make_dependency_info_well_formed[OF assms] or_empty_def strip_scheme_empty)
next
  case (Some v)
  with assms obtain s where v: "v = JStr s"
    by (cases v) (auto simp: well_formed_object_def absent_or_def)
  obtain l where l: "strip_scheme (JStr s) = Inr (JStr l)"
    using strip_scheme_str_total by blast
  from Some v l show ?thesis
    by (simp add: make_dependency_info_well_formed[OF assms] or_empty_def)
qed

lemma append_objects_well_formed:
  assumes "list_all well_formed_object objs"
  shows "\<exists>recs. append_objects objs acc = Inr (acc @ recs) \<and>
           list_all2 (\<lambda>obj r. make_dependency_info obj = Inr r) objs recs"
  using assms
proof (induction objs arbitrary: acc)
  case Nil
  then show ?case by simp
next
  case (Cons obj objs)
  then obtain r where r: "make_dependency_info obj = Inr r"
    using make_dependency_info_total by auto
  from Cons obtain recs where
    recs: "append_objects objs (acc @ [r]) = Inr ((acc @ [r]) @ recs)"
      "list_all2 (\<lambda>obj r. make_dependency_info obj = Inr r) objs recs"
    by fastforce
  have "append_objects (obj # objs) acc = Inr (acc @ (r # recs))"
    using r recs(1) by simp
  moreover have "list_all2 (\<lambda>obj r. make_dependency_info obj = Inr r) (obj # objs) (r # recs)"
    using r recs(2) by simp
  ultimately show ?case by blast
qed

lemma page_step_well_formed:
  assumes "well_formed_page data"
  shows "\<exists>recs. page_step data acc = Inr (acc @ recs, cursor_of data) \<and>
           list_all2 (\<lambda>obj r. make_dependency_info obj = Inr r) (objects_of data) recs"
proof -
  from assms have o: "is_obj data"
    and l: "absent_or is_obj (lookup_path [''list''] data)"
    and a: "absent_or is_arr (lookup_path [''list'', ''objects''] data)"
    and r: "absent_or is_obj (lookup_path [''list'', ''response''] data)"
    and w: "list_all well_formed_object (objects_of data)"
    by (simp_all add: well_formed_page_def)
  from py_get_sub[OF o l] obtain lkv where
    g1: "py_get data ''list'' (JObj []) = Inr (JObj lkv)" and
    l1: "\<And>k2 ks. lookup_path (''list'' # k2 # ks) data = lookup_path (k2 # ks) (JObj lkv)"
    by blast
  from r have r': "absent_or is_obj (lookup_path [''response''] (JObj lkv))"
    by (simp only: l1)
  from py_get_sub[OF _ r'] obtain rkv where
    g2: "py_get (JObj lkv) ''response'' (JObj []) = Inr (JObj rkv)" and
    l2: "\<And>k2 ks. lookup_path (''response'' # k2 # ks) (JObj lkv) = lookup_path (k2 # ks) (JObj rkv)"
    by auto
  have g3: "py_get (JObj lkv) ''objects'' (JArr []) = Inr (JArr (objects_of data))"
  proof (cases "map_of lkv ''objects''")
    case None
    then show ?thesis by (simp add: objects_of_def l1)
  next
    case (Some v)
    with a obtain xs where "v = JArr xs"
      by (cases v) (auto simp: l1 absent_or_def)
    with Some show ?thesis by (simp add: objects_of_def l1)
  qed
  have g4: "py_get (JObj rkv) ''next_page_id'' JNull = Inr (cursor_of data)"
    by (simp only: cursor_of_def l1 l2 py_get_leaf)
  from append_objects_well_formed[OF w, of acc] obtain recs where
    recs: "append_objects (objects_of data) acc = Inr (acc @ recs)"
      "list_all2 (\<lambda>obj r. make_dependency_info obj = Inr r) (objects_of data) recs"
    by blast
  have "page_step data acc = Inr (acc @ recs, cursor_of data)"
    unfolding page_step_def
    by (simp only: g1 g2 g3 g4 sbind_Inr py_len.simps py_iter.simps recs(1))
  with recs(2) show ?thesis by blast
qed

lemma dict_set_overwrite: "dict_set k v (dict_set k v' ps) = dict_set k v ps"
  by (induction ps) auto

lemma with_cursor_overwrite: "with_cursor (with_cursor req c) c' = with_cursor req c'"
  by (simp add: with_cursor_def dict_set_overwrite)

lemma with_cursor_step_req: "with_cursor (step_req req c) c' = with_cursor req c'"
  by (simp add: step_req_def with_cursor_overwrite)

lemma req_seq_truthy:
  assumes "\<forall>c \<in> set cs. truthy c"
  shows "req_seq req c0 cs = step_req req c0 # map (with_cursor req) cs"
  using assms
proof (induction cs arbitrary: req c0)
  case Nil
  then show ?case by simp
next
  case (Cons c cs)
  then have "req_seq (step_req req c0) c cs
      = step_req (step_req req c0) c # map (with_cursor (step_req req c0)) cs"
    by simp
  moreover have "step_req (step_req req c0) c = with_cursor req c"
    using Cons.prems by (simp add: step_req_def[of _ c] with_cursor_step_req)
  ultimately show ?case
    by (simp add: with_cursor_step_req)
qed

lemma fetch_loop_step:
  "fetch_loop (r # rs) req c acc sent =
     (case r of
        Failed \<Rightarrow> Some (Inr [], sent @ [step_req req c])
      | Body data \<Rightarrow>
          (case page_step data acc of
             Inl e \<Rightarrow> Some (Inl e, sent @ [step_req req c])
           | Inr (acc', npi) \<Rightarrow>
               if \<not> truthy npi then Some (Inr acc', sent @ [step_req req c])
               else fetch_loop rs (step_req req c) npi acc' (sent @ [step_req req c])))"
  unfolding step_req_def with_cursor_def fetch_loop.simps Let_def
  by (rule refl)

text \<open>Pages with a cursor, then a failed fetch.\<close>

lemma fetch_loop_failed:
  assumes "\<forall>d \<in> set pages. well_formed_page d \<and> truthy (cursor_of d)"
  shows "fetch_loop (map Body pages @ Failed # rest) req c acc sent
           = Some (Inr [], sent @ req_seq req c (map cursor_of pages))"
  using assms
proof (induction pages arbitrary: req c acc sent)
  case Nil
  show ?case by (simp add: fetch_loop_step del: fetch_loop.simps)
next
  case (Cons d pages)
  then have wf: "well_formed_page d" and t: "truthy (cursor_of d)" by simp_all
  from page_step_well_formed[OF wf, of acc] obtain recs where
    ps: "page_step d acc = Inr (acc @ recs, cursor_of d)" by blast
  have "fetch_loop (map Body (d # pages) @ Failed # rest) req c acc sent
      = fetch_loop (map Body pages @ Failed # rest) (step_req req c) (cursor_of d) (acc @ recs)
          (sent @ [step_req req c])"
    using ps t by (simp add: fetch_loop_step del: fetch_loop.simps)
  also have "\<dots> = Some (Inr [], (sent @ [step_req req c])
      @ req_seq (step_req req c) (cursor_of d) (map cursor_of pages))"
    using Cons.prems by (intro Cons.IH) simp
  finally show ?case by simp
qed


section \<open>The parsed date: first properties\<close>

lemma strptime_naive: "strptime s f = Inr dt \<Longrightarrow> tzinfo dt = None"
  by (auto simp: strptime_def Let_def split: list.splits prod.splits if_splits)

lemma try_formats_utc: "try_formats s fs = Inr dt \<Longrightarrow> tzinfo dt = Some 0"
proof (induction fs)
  case Nil
  then show ?case by simp
next
  case (Cons f fs)
  show ?case
  proof (cases "strptime s f")
    case (Inr d)
    with Cons.prems strptime_naive[OF Inr] show ?thesis by auto
  next
    case (Inl e)
    with Cons show ?thesis by (cases e) auto
  qed
qed

lemma parse_date_utc: "parse_date s = Inr dt \<Longrightarrow> tzinfo dt = Some 0"
  unfolding parse_date_def by (rule try_formats_utc)

lemma strptime_valid:
  "strptime s f = Inr dt \<Longrightarrow>
   check_fields (year dt) (month dt) (day dt) (hour dt) (minute dt) (second dt) \<and>
   microsecond dt = 0 \<and> tzinfo dt = None"
  by (auto simp: strptime_def Let_def split: list.splits prod.splits if_splits)

lemma try_formats_valid:
  "try_formats s fs = Inr dt \<Longrightarrow>
   check_fields (year dt) (month dt) (day dt) (hour dt) (minute dt) (second dt) \<and>
   microsecond dt = 0"
proof (induction fs)
  case Nil
  then show ?case by simp
next
  case (Cons f fs)
  show ?case
  proof (cases "strptime s f")
    case (Inr d)
    with Cons.prems strptime_valid[OF Inr] show ?thesis by auto
  next
    case (Inl e)
    with Cons show ?thesis by (cases e) auto
  qed
qed

text \<open>Every parsed date is a valid value in the zone UTC with no fraction of a second.\<close>

lemma parse_date_valid:
  assumes "parse_date s = Inr dt"
  shows "valid_datetime dt"
    and "dt = utc_instant (year dt) (month dt) (day dt) (hour dt) (minute dt) (second dt)"
proof -
  from assms have v: "check_fields (year dt) (month dt) (day dt) (hour dt) (minute dt) (second dt)"
    "microsecond dt = 0"
    using try_formats_valid[of s date_formats dt] by (simp_all add: parse_date_def)
  from parse_date_utc[OF assms] have z: "tzinfo dt = Some 0" .
  from v z show "valid_datetime dt" by (simp add: valid_datetime_def)
  from v z show "dt = utc_instant (year dt) (month dt) (day dt) (hour dt) (minute dt) (second dt)"
    by (simp add: utc_instant_def)
qed

lemma format_date_for_api_utc:
  "tzinfo dt = Some 0 \<Longrightarrow> format_date_for_api dt = Inr (''date('' @ strftime_date dt @ '')'')"
  by (simp add: format_date_for_api_def astimezone_utc_def)

lemma step_req_none: "step_req req JNull = req"
  by (simp add: step_req_def)

lemma get_new_dependencies_unfold:
  "format_date_for_api cutoff_date = Inr date_str \<Longrightarrow>
   get_new_dependencies namespace token project_uuid cutoff_date branch responses
     = fetch_loop responses (first_request namespace token project_uuid date_str branch) JNull [] []"
  by (simp add: get_new_dependencies_def first_request_def)

lemma generate_output_filenames_total:
  "\<exists>j c. generate_output_filenames project_uuid date_str branch = Inr (j, c)"
  by (simp add: generate_output_filenames_def safe_date_closed_form Let_def)

section \<open>The query and the run: claims\<close>

text \<open>
  Claim C1, as the code has it. Let the server answer any number of well-formed pages,
  each with a cursor, and then fail a fetch. The query returns the empty list, whatever
  the earlier pages held, after one request per response consumed. In a run whose date
  parses, whose environment is complete and whose token is usable, and whose two output
  files can be written, the run then ends normally with both files written: the JSON
  file with the empty list and the CSV file with the header row alone.
\<close>

theorem query_error_returns_empty_and_run_completes:
  assumes "\<forall>d \<in> set pages. well_formed_page d \<and> truthy (cursor_of d)"
    and "parse_date (arg_date a) = Inr cutoff_date"
    and "get_env_values e = Inr (api_key, api_secret, namespace)"
    and "get_token auth = Inr token" and "truthy token"
    and "generate_output_filenames (arg_project_uuid a) (arg_date a) (arg_branch a)
           = Inr (json_filename, csv_filename)"
    and "writable json_filename" and "writable csv_filename"
  shows "(let first = first_request namespace token (arg_project_uuid a)
                        (''date('' @ strftime_date cutoff_date @ '')'') (arg_branch a)
          in get_new_dependencies namespace token (arg_project_uuid a) cutoff_date (arg_branch a)
               (map Body pages @ Failed # rest)
             = Some (Inr [], first # map (with_cursor first) (map cursor_of pages))) \<and>
         main writable a e auth (map Body pages @ Failed # rest)
           = Some (Completed [(json_filename, JsonDump []), (csv_filename, CsvRows [csv_header])])"
proof -
  let ?date = "''date('' @ strftime_date cutoff_date @ '')''"
  let ?first = "first_request namespace token (arg_project_uuid a) ?date (arg_branch a)"
  let ?rs = "map Body pages @ Failed # rest"
  have f: "format_date_for_api cutoff_date = Inr ?date"
    using assms(2) by (intro format_date_for_api_utc parse_date_utc)
  have t: "\<forall>c \<in> set (map cursor_of pages). truthy c"
    using assms(1) by simp
  have g: "get_new_dependencies namespace token (arg_project_uuid a) cutoff_date (arg_branch a) ?rs
      = Some (Inr [], ?first # map (with_cursor ?first) (map cursor_of pages))"
    by (simp only: get_new_dependencies_unfold[OF f] fetch_loop_failed[OF assms(1)]
        req_seq_truthy[OF t] step_req_none append_Nil)
  have "main writable a e auth ?rs
      = Some (Completed [(json_filename, JsonDump []), (csv_filename, CsvRows [csv_header])])"
    using assms(2-8) g by (simp add: main_def write_csv_file_def)
  with g show ?thesis by (simp add: Let_def)
qed

theorem query_error_returns_empty_and_run_completes_witness:
  "well_formed_page example_page1 \<and> truthy (cursor_of example_page1) \<and>
   parse_date (arg_date example_args) = Inr (utc_instant 2024 1 1 0 0 0) \<and>
   get_env_values example_env = Inr (''key'', ''secret'', ''ns'') \<and>
   get_token example_auth = Inr (JStr ''tok'') \<and>
   generate_output_filenames (arg_project_uuid example_args) (arg_date example_args)
       (arg_branch example_args)
     = Inr (''abc-123_new_dependencies_20240101.json'', ''abc-123_new_dependencies_20240101.csv'') \<and>
   any_name ''abc-123_new_dependencies_20240101.json'' \<and>
   any_name ''abc-123_new_dependencies_20240101.csv'' \<and>
   get_new_dependencies ''ns'' (JStr ''tok'') ''abc-123'' (utc_instant 2024 1 1 0 0 0) None
       [Body example_page1, Failed, Body example_page2]
     = Some (Inr [], [example_request, with_cursor example_request (JStr ''page2'')]) \<and>
   main any_name example_args example_env example_auth
       [Body example_page1, Failed, Body example_page2]
     = Some (Completed [(''abc-123_new_dependencies_20240101.json'', JsonDump []),
                        (''abc-123_new_dependencies_20240101.csv'', CsvRows [csv_header])])"
proof -
  have p: "well_formed_page example_page1 \<and> truthy (cursor_of example_page1)"
    by code_simp
  then have h1: "\<forall>d \<in> set [example_page1]. well_formed_page d \<and> truthy (cursor_of d)"
    by simp
  have h2: "parse_date (arg_date example_args) = Inr (utc_instant 2024 1 1 0 0 0)"
    by code_simp
  have h3: "get_env_values example_env = Inr (''key'', ''secret'', ''ns'')"
    by code_simp
  have h4: "get_token example_auth = Inr (JStr ''tok'')"
    by code_simp
  have h5: "truthy (JStr ''tok'')"
    by simp
  have h6: "generate_output_filenames (arg_project_uuid example_args) (arg_date example_args)
       (arg_branch example_args)
     = Inr (''abc-123_new_dependencies_20240101.json'', ''abc-123_new_dependencies_20240101.csv'')"
    by code_simp
  have h7: "any_name ''abc-123_new_dependencies_20240101.json''"
    and h8: "any_name ''abc-123_new_dependencies_20240101.csv''"
    by (simp_all add: any_name_def)
  have a: "arg_project_uuid example_args = ''abc-123''" "arg_branch example_args = None"
    by (simp_all add: example_args_def)
  have f: "first_request ''ns'' (JStr ''tok'') ''abc-123''
      (''date('' @ strftime_date (utc_instant 2024 1 1 0 0 0) @ '')'') None = example_request"
    by code_simp
  have c: "cursor_of example_page1 = JStr ''page2''"
    by code_simp
  from query_error_returns_empty_and_run_completes[OF h1 h2 h3 h4 h5 h6 h7 h8,
      of "[Body example_page2]", unfolded Let_def a f]
  have "get_new_dependencies ''ns'' (JStr ''tok'') ''abc-123'' (utc_instant 2024 1 1 0 0 0) None
       [Body example_page1, Failed, Body example_page2]
     = Some (Inr [], [example_request, with_cursor example_request (JStr ''page2'')]) \<and>
   main any_name example_args example_env example_auth
       [Body example_page1, Failed, Body example_page2]
     = Some (Completed [(''abc-123_new_dependencies_20240101.json'', JsonDump []),
                        (''abc-123_new_dependencies_20240101.csv'', CsvRows [csv_header])])"
    by (simp add: c)
  with p h2 h3 h4 h6 h7 h8 show ?thesis by blast
qed

text \<open>
  The claim's wording has the run end normally after every failed fetch. With the project
  UUID \<^verbatim>\<open>no_such_dir/abc\<close> and no such directory, the fetch fails, the query returns
  the empty list, and the run ends with the \<^verbatim>\<open>OSError\<close> of the first
  \<^verbatim>\<open>open\<close>, no file written.
\<close>

theorem query_error_unwritable_file_counterexample:
  "map_option fst
     (get_new_dependencies ''ns'' (JStr ''tok'') ''no_such_dir/abc'' (utc_instant 2024 1 1 0 0 0)
        None [Failed])
     = Some (Inr []) \<and>
   generate_output_filenames ''no_such_dir/abc'' ''2024-01-01'' None
     = Inr (''no_such_dir/abc_new_dependencies_20240101.json'',
            ''no_such_dir/abc_new_dependencies_20240101.csv'') \<and>
   main no_such_dir (example_args\<lparr>arg_project_uuid := ''no_such_dir/abc''\<rparr>) example_env
       example_auth [Failed]
     = Some (Uncaught OSError [])"
  by code_simp



lemma map_of_dict_set_other: "k \<noteq> k' \<Longrightarrow> map_of (dict_set k' v ps) k = map_of ps k"
  by (induction ps) auto

lemma step_req_filter:
  "map_of (params (step_req req c)) ''list_parameters.filter''
     = map_of (params req) ''list_parameters.filter''"
  by (simp add: step_req_def with_cursor_def map_of_dict_set_other)

text \<open>
  Whenever the loop returns, it has sent the request of its first turn and then requests
  with the same filter.
\<close>

lemma fetch_loop_sent:
  assumes "fetch_loop rs req c acc sent = Some (res, sent')"
  shows "\<exists>later. sent' = sent @ step_req req c # later \<and>
           (\<forall>r \<in> set later. map_of (params r) ''list_parameters.filter''
                                = map_of (params req) ''list_parameters.filter'')"
  using assms
proof (induction rs arbitrary: req c acc sent)
  case Nil
  then show ?case by simp
next
  case (Cons r rs)
  show ?case
  proof (cases r)
    case Failed
    with Cons.prems have "sent' = sent @ step_req req c # []"
      by (simp add: fetch_loop_step del: fetch_loop.simps)
    then show ?thesis by auto
  next
    case (Body data)
    show ?thesis
    proof (cases "page_step data acc")
      case (Inl e)
      with Body Cons.prems have "sent' = sent @ step_req req c # []"
        by (simp add: fetch_loop_step del: fetch_loop.simps)
      then show ?thesis by auto
    next
      case (Inr p)
      obtain acc' npi where p: "p = (acc', npi)" by (cases p)
      show ?thesis
      proof (cases "truthy npi")
        case False
        with Body Inr p Cons.prems have "sent' = sent @ step_req req c # []"
          by (simp add: fetch_loop_step del: fetch_loop.simps)
        then show ?thesis by auto
      next
        case True
        with Body Inr p Cons.prems have
          "fetch_loop rs (step_req req c) npi acc' (sent @ [step_req req c]) = Some (res, sent')"
          by (simp add: fetch_loop_step del: fetch_loop.simps)
        from Cons.IH[OF this] obtain later where
          l: "sent' = (sent @ [step_req req c]) @ step_req (step_req req c) npi # later"
            "\<forall>r \<in> set later. map_of (params r) ''list_parameters.filter''
               = map_of (params (step_req req c)) ''list_parameters.filter''"
          by blast
        from l(1) have "sent' = sent @ step_req req c # (step_req (step_req req c) npi # later)"
          by simp
        moreover from l(2) have "\<forall>r \<in> set (step_req (step_req req c) npi # later).
            map_of (params r) ''list_parameters.filter'' = map_of (params req) ''list_parameters.filter''"
          by (simp add: step_req_filter)
        ultimately show ?thesis by blast
      qed
    qed
  qed
qed

lemma context_part_branch: "b \<noteq> [] \<Longrightarrow> context_part (Some b) = ''context.id=='' @ b"
  by (simp add: context_part_def)

text \<open>
  Claim C10. With the empty string as branch, the query is the loop run on a first
  request whose filter ends in the clause of the main context, as without a branch;
  whenever the query returns, that request was sent first and every request sent carries
  that filter; the file names are the ones without a branch and have no branch suffix;
  and the whole run ends as the run without a branch does.
\<close>

theorem empty_branch_is_no_branch:
  assumes "format_date_for_api cutoff_date = Inr date_str"
  shows "get_new_dependencies namespace token project_uuid cutoff_date (Some []) responses
           = fetch_loop responses
               \<lparr>url = API_URL @ ''/namespaces/'' @ namespace @ ''/dependency-metadata'',
                bearer = token,
                params =
                  [(''list_parameters.filter'',
                    JStr (''spec.importer_data.project_uuid=='' @ project_uuid
                          @ '' and meta.create_time>='' @ date_str
                          @ '' and context.type==CONTEXT_TYPE_MAIN'')),
                   (''list_parameters.mask'',
                    JStr ''meta.name,meta.create_time,spec.dependency_data,spec.importer_data'')]\<rparr>
               JNull [] [] \<and>
         get_new_dependencies namespace token project_uuid cutoff_date (Some []) responses
           = get_new_dependencies namespace token project_uuid cutoff_date None responses \<and>
         (\<forall>result sent.
            get_new_dependencies namespace token project_uuid cutoff_date (Some []) responses
              = Some (result, sent) \<longrightarrow>
            sent \<noteq> [] \<and>
            (\<forall>r \<in> set sent.
               map_of (params r) ''list_parameters.filter''
                 = Some (JStr (''spec.importer_data.project_uuid=='' @ project_uuid
                               @ '' and meta.create_time>='' @ date_str
                               @ '' and context.type==CONTEXT_TYPE_MAIN'')))) \<and>
         generate_output_filenames project_uuid date_text (Some [])
           = generate_output_filenames project_uuid date_text None \<and>
         (\<exists>sd. safe_date date_text = Inr sd \<and>
               generate_output_filenames project_uuid date_text (Some [])
                 = Inr (project_uuid @ ''_new_dependencies_'' @ sd @ ''.json'',
                        project_uuid @ ''_new_dependencies_'' @ sd @ ''.csv'')) \<and>
         main writable (a\<lparr>arg_branch := Some []\<rparr>) e auth responses
           = main writable (a\<lparr>arg_branch := None\<rparr>) e auth responses"
proof -
  let ?flt = "''spec.importer_data.project_uuid=='' @ project_uuid
      @ '' and meta.create_time>='' @ date_str @ '' and context.type==CONTEXT_TYPE_MAIN''"
  let ?req = "\<lparr>url = API_URL @ ''/namespaces/'' @ namespace @ ''/dependency-metadata'',
      bearer = token,
      params = [(''list_parameters.filter'', JStr ?flt),
                (''list_parameters.mask'',
                 JStr ''meta.name,meta.create_time,spec.dependency_data,spec.importer_data'')]\<rparr>"
  have cf: "\<And>p d. context_filter p d (Some []) = context_filter p d None"
    by (simp add: context_filter_def context_part_def)
  have fr: "first_request namespace token project_uuid date_str (Some []) = ?req"
    by (simp add: first_request_def initial_params_def context_filter_def context_part_def)
  have g1: "get_new_dependencies namespace token project_uuid cutoff_date (Some []) responses
      = fetch_loop responses ?req JNull [] []"
    by (simp only: get_new_dependencies_unfold[OF assms] fr)
  have g: "\<And>n t p c. get_new_dependencies n t p c (Some []) responses
      = get_new_dependencies n t p c None responses"
    unfolding get_new_dependencies_def cf by (rule refl)
  have s: "\<forall>result sent.
      get_new_dependencies namespace token project_uuid cutoff_date (Some []) responses
        = Some (result, sent) \<longrightarrow>
      sent \<noteq> [] \<and>
      (\<forall>r \<in> set sent. map_of (params r) ''list_parameters.filter'' = Some (JStr ?flt))"
  proof (intro allI impI)
    fix result sent
    assume "get_new_dependencies namespace token project_uuid cutoff_date (Some []) responses
        = Some (result, sent)"
    with g1 have "fetch_loop responses ?req JNull [] [] = Some (result, sent)" by simp
    from fetch_loop_sent[OF this] obtain later where
      l: "sent = [] @ step_req ?req JNull # later"
        "\<forall>r \<in> set later. map_of (params r) ''list_parameters.filter''
           = map_of (params ?req) ''list_parameters.filter''"
      by blast
    have "map_of (params ?req) ''list_parameters.filter'' = Some (JStr ?flt)" by simp
    with l show "sent \<noteq> [] \<and>
        (\<forall>r \<in> set sent. map_of (params r) ''list_parameters.filter'' = Some (JStr ?flt))"
      by (simp add: step_req_none)
  qed
  have f: "\<And>p d. generate_output_filenames p d (Some []) = generate_output_filenames p d None"
    by (simp add: generate_output_filenames_def)
  have n: "\<exists>sd. safe_date date_text = Inr sd \<and>
      generate_output_filenames project_uuid date_text (Some [])
        = Inr (project_uuid @ ''_new_dependencies_'' @ sd @ ''.json'',
               project_uuid @ ''_new_dependencies_'' @ sd @ ''.csv'')"
    by (simp add: generate_output_filenames_def safe_date_closed_form)
  have sel: "arg_project_uuid (a\<lparr>arg_branch := Some []\<rparr>) = arg_project_uuid (a\<lparr>arg_branch := None\<rparr>)"
    "arg_date (a\<lparr>arg_branch := Some []\<rparr>) = arg_date (a\<lparr>arg_branch := None\<rparr>)"
    "arg_branch (a\<lparr>arg_branch := Some []\<rparr>) = Some []"
    "arg_branch (a\<lparr>arg_branch := None\<rparr>) = None"
    by simp_all
  have m: "main writable (a\<lparr>arg_branch := Some []\<rparr>) e auth responses
      = main writable (a\<lparr>arg_branch := None\<rparr>) e auth responses"
    unfolding main_def sel g f by (rule refl)
  from g1 g s f n m show ?thesis by blast
qed

theorem empty_branch_is_no_branch_witness:
  "format_date_for_api (utc_instant 2024 1 1 0 0 0) = Inr ''date(2024-01-01)'' \<and>
   get_new_dependencies ''ns'' (JStr ''tok'') ''abc-123'' (utc_instant 2024 1 1 0 0 0) (Some [])
       [Body example_page2]
     = Some (Inr [\<lparr>package_name = JStr ''left-pad'', resolved_version = JStr [],
                    created_date = JStr [], uuid = JStr ''u2'', name = JStr ''n2''\<rparr>],
             [example_request]) \<and>
   map_of (params example_request) ''list_parameters.filter''
     = Some (JStr ''spec.importer_data.project_uuid==abc-123 and meta.create_time>=date(2024-01-01) and context.type==CONTEXT_TYPE_MAIN'') \<and>
   generate_output_filenames ''abc-123'' ''2024-01-01'' (Some [])
     = Inr (''abc-123_new_dependencies_20240101.json'', ''abc-123_new_dependencies_20240101.csv'') \<and>
   main any_name (example_args\<lparr>arg_branch := Some []\<rparr>) example_env example_auth
       [Body example_page2]
     = main any_name (example_args\<lparr>arg_branch := None\<rparr>) example_env example_auth
         [Body example_page2]"
proof -
  have h: "format_date_for_api (utc_instant 2024 1 1 0 0 0) = Inr ''date(2024-01-01)''"
    by code_simp
  have q: "get_new_dependencies ''ns'' (JStr ''tok'') ''abc-123'' (utc_instant 2024 1 1 0 0 0) None
       [Body example_page2]
     = Some (Inr [\<lparr>package_name = JStr ''left-pad'', resolved_version = JStr [],
                    created_date = JStr [], uuid = JStr ''u2'', name = JStr ''n2''\<rparr>],
             [example_request])"
    by code_simp
  have n: "generate_output_filenames ''abc-123'' ''2024-01-01'' None
      = Inr (''abc-123_new_dependencies_20240101.json'', ''abc-123_new_dependencies_20240101.csv'')"
    by code_simp
  note t = empty_branch_is_no_branch[OF h, of "''ns''" "JStr ''tok''" "''abc-123''"
      "[Body example_page2]" "''2024-01-01''" any_name example_args example_env example_auth]
  have g: "get_new_dependencies ''ns'' (JStr ''tok'') ''abc-123''
       (utc_instant 2024 1 1 0 0 0) (Some []) [Body example_page2]
     = Some (Inr [\<lparr>package_name = JStr ''left-pad'', resolved_version = JStr [],
                    created_date = JStr [], uuid = JStr ''u2'', name = JStr ''n2''\<rparr>],
             [example_request])"
    by (simp only: t[THEN conjunct2, THEN conjunct1] q)
  from t[THEN conjunct2, THEN conjunct2, THEN conjunct1, rule_format, OF g]
  have r: "map_of (params example_request) ''list_parameters.filter''
     = Some (JStr ''spec.importer_data.project_uuid==abc-123 and meta.create_time>=date(2024-01-01) and context.type==CONTEXT_TYPE_MAIN'')"
    by simp
  have f: "generate_output_filenames ''abc-123'' ''2024-01-01'' (Some [])
     = Inr (''abc-123_new_dependencies_20240101.json'', ''abc-123_new_dependencies_20240101.csv'')"
    by (simp only: t[THEN conjunct2, THEN conjunct2, THEN conjunct2, THEN conjunct1] n)
  note m = t[THEN conjunct2, THEN conjunct2, THEN conjunct2, THEN conjunct2, THEN conjunct2]
  from h g r f m show ?thesis by (intro conjI)
qed

section \<open>Parsing the cutoff date: properties\<close>

lemma digit_cases:
  assumes "0 \<le> n" "n \<le> (9::int)"
  shows "n \<in> {0, 1, 2, 3, 4, 5, 6, 7, 8, 9}"
  using assms by (simp only: insert_iff empty_iff simp_thms) arith

lemma digit_val_digit_char: "0 \<le> n \<Longrightarrow> n \<le> 9 \<Longrightarrow> digit_val (digit_char n) = n"
  using digit_cases[of n] by (auto simp: digit_val_def digit_char_def)

lemma digit_char_in_digits: "0 \<le> n \<Longrightarrow> n \<le> 9 \<Longrightarrow> digit_char n \<in> set digits"
  using digit_cases[of n] by (auto simp: digits_def digit_char_def)

lemma digit_char_not_space: "0 \<le> n \<Longrightarrow> n \<le> 9 \<Longrightarrow> digit_char n \<noteq> CHR '' ''"
  using digit_cases[of n] by (auto simp: digit_char_def)

lemma py_int_pad2: 
  assumes "0 \<le> v" "v \<le> 99"
  shows "py_int (pad2 v) = v"
proof -
  have a: "0 \<le> v div 10 mod 10" "v div 10 mod 10 \<le> 9" "0 \<le> v mod 10" "v mod 10 \<le> 9"
    by simp_all
  have "v div 10 mod 10 = v div 10" using assms by simp
  then have "10 * (v div 10 mod 10) + v mod 10 = v" by simp
  then show ?thesis
    using a by (simp add: py_int_def pad2_def digit_char_not_space digit_val_digit_char)
qed

lemma decimal4:
  assumes "0 \<le> y" "y \<le> (9999::int)"
  shows "10 * (10 * (10 * (y div 1000 mod 10) + y div 100 mod 10) + y div 10 mod 10) + y mod 10 = y"
proof -
  define q1 q2 q3 m0 m1 m2 where "q1 = y div 10" and "q2 = y div 100" and "q3 = y div 1000"
    and "m0 = y mod 10" and "m1 = y div 10 mod 10" and "m2 = y div 100 mod 10"
  have d2: "y div 10 div 10 = y div 100" by (simp add: zdiv_zmult2_eq[symmetric])
  have d3: "y div 100 div 10 = y div 1000" by (simp add: zdiv_zmult2_eq[symmetric])
  have e1: "y = 10 * q1 + m0" unfolding q1_def m0_def by simp
  have "y div 10 = 10 * (y div 10 div 10) + y div 10 mod 10" by simp
  then have e2: "q1 = 10 * q2 + m1" unfolding q1_def q2_def m1_def d2 .
  have "y div 100 = 10 * (y div 100 div 10) + y div 100 mod 10" by simp
  then have e3: "q2 = 10 * q3 + m2" unfolding q2_def q3_def m2_def d3 .
  have "y div 1000 < 10" using assms by simp
  moreover have "0 \<le> y div 1000" using assms by simp
  ultimately have e4: "y div 1000 mod 10 = q3" unfolding q3_def by simp
  have "10 * (10 * (10 * q3 + m2) + m1) + m0 = y"
    using e1 e2 e3 by simp
  then show ?thesis
    unfolding e4 unfolding m0_def m1_def m2_def .
qed

lemma py_int_pad4: 
  assumes "0 \<le> y" "y \<le> 9999"
  shows "py_int (pad4 y) = y"
proof -
  have a: "0 \<le> y div 1000 mod 10" "y div 1000 mod 10 \<le> 9" "0 \<le> y div 100 mod 10" "y div 100 mod 10 \<le> 9"
    "0 \<le> y div 10 mod 10" "y div 10 mod 10 \<le> 9" "0 \<le> y mod 10" "y mod 10 \<le> 9"
    by simp_all
  show ?thesis
    using a decimal4[OF assms]
    by (simp add: py_int_def pad4_def digit_char_not_space digit_val_digit_char)
qed

lemma group_matches_Y:
  "group_matches (CHR ''Y'') (pad4 y @ r) = [(pad4 y, r)]"
  by (simp add: group_matches_def alternatives_def List.map_filter_def pad4_def digit_char_in_digits)

lemma digit_char_in_nonzero: "1 \<le> n \<Longrightarrow> n \<le> 9 \<Longrightarrow> digit_char n \<in> set nonzero"
  using digit_cases[of n] by (auto simp: nonzero_def digit_char_def)

lemma digit_char_in_upto5: "0 \<le> n \<Longrightarrow> n \<le> 5 \<Longrightarrow> digit_char n \<in> set ''012345''"
  using digit_cases[of n] by (auto simp: digit_char_def)

lemma digit_char_in_upto3: "0 \<le> n \<Longrightarrow> n \<le> 3 \<Longrightarrow> digit_char n \<in> set ''0123''"
  using digit_cases[of n] by (auto simp: digit_char_def)

lemma digit_char_in_upto2: "0 \<le> n \<Longrightarrow> n \<le> 2 \<Longrightarrow> digit_char n \<in> set ''012''"
  using digit_cases[of n] by (auto simp: digit_char_def)

lemma digit_char_in_upto1: "0 \<le> n \<Longrightarrow> n \<le> 1 \<Longrightarrow> digit_char n \<in> set ''01''"
  using digit_cases[of n] by (auto simp: digit_char_def)

lemma digit_char_small:
  "digit_char 0 = CHR ''0''" "digit_char 1 = CHR ''1''" "digit_char 2 = CHR ''2''"
  "digit_char 3 = CHR ''3''"
  by (simp_all add: digit_char_def)

lemma group_matches_d_chars:
  assumes "(c1 = CHR ''3'' \<and> c2 \<in> set ''01'') \<or> (c1 \<in> set ''12'' \<and> c2 \<in> set digits)
     \<or> (c1 = CHR ''0'' \<and> c2 \<in> set nonzero)"
  shows "\<exists>ms. group_matches (CHR ''d'') (c1 # c2 # r) = ([c1, c2], r) # ms"
  using assms
  by (auto simp: group_matches_def alternatives_def List.map_filter_def)

lemma group_matches_m_chars:
  assumes "(c1 = CHR ''1'' \<and> c2 \<in> set ''012'') \<or> (c1 = CHR ''0'' \<and> c2 \<in> set nonzero)"
  shows "\<exists>ms. group_matches (CHR ''m'') (c1 # c2 # r) = ([c1, c2], r) # ms"
  using assms
  by (auto simp: group_matches_def alternatives_def List.map_filter_def)

lemma group_matches_H_chars:
  assumes "(c1 = CHR ''2'' \<and> c2 \<in> set ''0123'') \<or> (c1 \<in> set ''01'' \<and> c2 \<in> set digits)"
  shows "\<exists>ms. group_matches (CHR ''H'') (c1 # c2 # r) = ([c1, c2], r) # ms"
  using assms
  by (auto simp: group_matches_def alternatives_def List.map_filter_def)

lemma group_matches_M_chars:
  assumes "c1 \<in> set ''012345'' \<and> c2 \<in> set digits"
  shows "\<exists>ms. group_matches (CHR ''M'') (c1 # c2 # r) = ([c1, c2], r) # ms"
  using assms
  by (auto simp: group_matches_def alternatives_def List.map_filter_def)

lemma group_matches_S_chars:
  assumes "c1 \<in> set ''012345'' \<and> c2 \<in> set digits"
  shows "\<exists>ms. group_matches (CHR ''S'') (c1 # c2 # r) = ([c1, c2], r) # ms"
  using assms
  by (auto simp: group_matches_def alternatives_def List.map_filter_def)

lemma group_matches_d_pad2:
  assumes "1 \<le> d" "d \<le> 31"
  shows "\<exists>ms. group_matches (CHR ''d'') (pad2 d @ r) = (pad2 d, r) # ms"
proof -
  have b: "0 \<le> d mod 10" "d mod 10 \<le> 9" by simp_all
  consider "d \<le> 9" | "10 \<le> d" "d \<le> 19" | "20 \<le> d" "d \<le> 29" | "30 \<le> d" by linarith
  then have "(digit_char (d div 10 mod 10) = CHR ''3'' \<and> digit_char (d mod 10) \<in> set ''01'')
     \<or> (digit_char (d div 10 mod 10) \<in> set ''12'' \<and> digit_char (d mod 10) \<in> set digits)
     \<or> (digit_char (d div 10 mod 10) = CHR ''0'' \<and> digit_char (d mod 10) \<in> set nonzero)"
  proof cases
    case 1
    with assms have "d div 10 = 0" "d mod 10 = d" by simp_all
    with assms 1 show ?thesis by (simp add: digit_char_small digit_char_in_nonzero)
  next
    case 2
    then have "d div 10 = 1" by simp
    with b show ?thesis by (simp add: digit_char_small digit_char_in_digits)
  next
    case 3
    then have "d div 10 = 2" by simp
    with b show ?thesis by (simp add: digit_char_small digit_char_in_digits)
  next
    case 4
    with assms have "d div 10 = 3" "d mod 10 \<le> 1" by presburger+
    moreover from this b have "digit_char (d mod 10) \<in> set ''01''"
      by (intro digit_char_in_upto1)
    ultimately show ?thesis by (simp add: digit_char_small)
  qed
  from group_matches_d_chars[OF this, of r] show ?thesis by (simp add: pad2_def)
qed

lemma group_matches_m_pad2:
  assumes "1 \<le> m" "m \<le> 12"
  shows "\<exists>ms. group_matches (CHR ''m'') (pad2 m @ r) = (pad2 m, r) # ms"
proof -
  consider "m \<le> 9" | "10 \<le> m" by linarith
  then have "(digit_char (m div 10 mod 10) = CHR ''1'' \<and> digit_char (m mod 10) \<in> set ''012'')
     \<or> (digit_char (m div 10 mod 10) = CHR ''0'' \<and> digit_char (m mod 10) \<in> set nonzero)"
  proof cases
    case 1
    with assms have "m div 10 = 0" "m mod 10 = m" by simp_all
    with assms 1 show ?thesis by (simp add: digit_char_small digit_char_in_nonzero)
  next
    case 2
    with assms have "m div 10 = 1" "m mod 10 \<le> 2" "0 \<le> m mod 10" by presburger+
    moreover from this have "digit_char (m mod 10) \<in> set ''012''"
      by (intro digit_char_in_upto2)
    ultimately show ?thesis by (simp add: digit_char_small)
  qed
  from group_matches_m_chars[OF this, of r] show ?thesis by (simp add: pad2_def)
qed

lemma group_matches_H_pad2:
  assumes "0 \<le> h" "h \<le> 23"
  shows "\<exists>ms. group_matches (CHR ''H'') (pad2 h @ r) = (pad2 h, r) # ms"
proof -
  have b: "0 \<le> h mod 10" "h mod 10 \<le> 9" by simp_all
  consider "h \<le> 9" | "10 \<le> h" "h \<le> 19" | "20 \<le> h" by linarith
  then have "(digit_char (h div 10 mod 10) = CHR ''2'' \<and> digit_char (h mod 10) \<in> set ''0123'')
     \<or> (digit_char (h div 10 mod 10) \<in> set ''01'' \<and> digit_char (h mod 10) \<in> set digits)"
  proof cases
    case 1
    with assms have "h div 10 = 0" by simp
    with b show ?thesis by (simp add: digit_char_small digit_char_in_digits)
  next
    case 2
    then have "h div 10 = 1" by simp
    with b show ?thesis by (simp add: digit_char_small digit_char_in_digits)
  next
    case 3
    with assms have "h div 10 = 2" "h mod 10 \<le> 3" by presburger+
    moreover from this b have "digit_char (h mod 10) \<in> set ''0123''"
      by (intro digit_char_in_upto3)
    ultimately show ?thesis by (simp add: digit_char_small)
  qed
  from group_matches_H_chars[OF this, of r] show ?thesis by (simp add: pad2_def)
qed

lemma sixty_digits:
  assumes "0 \<le> v" "v \<le> (59::int)"
  shows "digit_char (v div 10 mod 10) \<in> set ''012345'' \<and> digit_char (v mod 10) \<in> set digits"
proof -
  from assms have q: "0 \<le> v div 10" "v div 10 \<le> 5" by presburger+
  then have e: "v div 10 mod 10 = v div 10" by simp
  have "digit_char (v div 10) \<in> set ''012345''"
    using q by (rule digit_char_in_upto5)
  moreover have "digit_char (v mod 10) \<in> set digits"
    by (rule digit_char_in_digits) simp_all
  ultimately show ?thesis unfolding e by (rule conjI)
qed

lemma group_matches_M_pad2:
  assumes "0 \<le> v" "v \<le> 59"
  shows "\<exists>ms. group_matches (CHR ''M'') (pad2 v @ r) = (pad2 v, r) # ms"
  using group_matches_M_chars[OF sixty_digits[OF assms], of r] by (simp add: pad2_def)

lemma group_matches_S_pad2:
  assumes "0 \<le> v" "v \<le> 59"
  shows "\<exists>ms. group_matches (CHR ''S'') (pad2 v @ r) = (pad2 v, r) # ms"
  using group_matches_S_chars[OF sixty_digits[OF assms], of r] by (simp add: pad2_def)

lemma rx_match_directive_head:
  assumes "group_matches g s = (m, r) # ms" and "rx_match its r = (caps, rest) # others"
  shows "\<exists>others'. rx_match (Directive g # its) s = ((g, m) # caps, rest) # others'"
  using assms by simp

lemma rx_match_literal:
  "lower x = lower c \<Longrightarrow> rx_match (Literal c # its) (x # r) = rx_match its r"
  by simp

lemma match_alt_split: "match_alt a s = Some (m, r) \<Longrightarrow> s = m @ r"
proof (induction a s arbitrary: m r rule: match_alt.induct)
  case (1 s)
  then show ?case by simp
next
  case (2 k ks)
  then show ?case by simp
next
  case (3 k ks c s)
  then show ?case by (auto split: if_splits option.splits)
qed

lemma group_matches_split: "(m, r) \<in> set (group_matches g s) \<Longrightarrow> s = m @ r"
  by (auto simp: group_matches_def List.map_filter_def dest: match_alt_split)

text \<open>A format with a literal character only matches a text that holds the character.\<close>

lemma rx_match_literal_needed:
  "Literal c \<in> set its \<Longrightarrow> rx_match its s \<noteq> [] \<Longrightarrow> \<exists>x \<in> set s. lower x = lower c"
proof (induction its arbitrary: s)
  case Nil
  then show ?case by simp
next
  case (Cons it its)
  show ?case
  proof (cases it)
    case (Directive g)
    with Cons.prems obtain m r where mr: "(m, r) \<in> set (group_matches g s)" "rx_match its r \<noteq> []"
      by auto
    from Cons.prems Directive have "Literal c \<in> set its" by simp
    from Cons.IH[OF this mr(2)] obtain x where "x \<in> set r" "lower x = lower c" by blast
    moreover from group_matches_split[OF mr(1)] have "set r \<subseteq> set s" by auto
    ultimately show ?thesis by blast
  next
    case (Literal c')
    with Cons.prems obtain x r where s: "s = x # r" "lower x = lower c'" "rx_match its r \<noteq> []"
      by (cases s) (auto split: if_splits)
    show ?thesis
    proof (cases "c' = c")
      case True
      with s show ?thesis by auto
    next
      case False
      with Cons.prems Literal have "Literal c \<in> set its" by simp
      from Cons.IH[OF this s(3)] s(1) show ?thesis by auto
    qed
  next
    case Whitespace
    with Cons.prems obtain k where k: "rx_match its (drop k s) \<noteq> []"
      by auto
    from Cons.prems Whitespace have "Literal c \<in> set its" by simp
    from Cons.IH[OF this k] obtain x where "x \<in> set (drop k s)" "lower x = lower c" by blast
    then show ?thesis by (meson in_set_dropD)
  qed
qed

lemma rx_match_date_head:
  assumes "0 \<le> y" "y \<le> 9999" "1 \<le> m" "m \<le> 12" "1 \<le> d" "d \<le> 31"
    and "rx_match its rest = (caps, rest') # others"
  shows "\<exists>others'. rx_match (Directive (CHR ''Y'') # Literal (CHR ''-'') # Directive (CHR ''m'')
            # Literal (CHR ''-'') # Directive (CHR ''d'') # its) (iso_date y m d @ rest)
          = ((CHR ''Y'', pad4 y) # (CHR ''m'', pad2 m) # (CHR ''d'', pad2 d) # caps, rest') # others'"
proof -
  from group_matches_d_pad2[OF assms(5,6), of rest] obtain ms1 where
    g1: "group_matches (CHR ''d'') (pad2 d @ rest) = (pad2 d, rest) # ms1" by blast
  from rx_match_directive_head[OF g1 assms(7)] obtain others1 where
    r1: "rx_match (Directive (CHR ''d'') # its) (pad2 d @ rest)
          = ((CHR ''d'', pad2 d) # caps, rest') # others1" by blast
  then have r2: "rx_match (Literal (CHR ''-'') # Directive (CHR ''d'') # its) (CHR ''-'' # pad2 d @ rest)
          = ((CHR ''d'', pad2 d) # caps, rest') # others1"
    by (simp only: rx_match_literal[OF refl])
  from group_matches_m_pad2[OF assms(3,4), of "CHR ''-'' # pad2 d @ rest"] obtain ms2 where
    g2: "group_matches (CHR ''m'') (pad2 m @ CHR ''-'' # pad2 d @ rest)
          = (pad2 m, CHR ''-'' # pad2 d @ rest) # ms2" by blast
  from rx_match_directive_head[OF g2 r2] obtain others2 where
    r3: "rx_match (Directive (CHR ''m'') # Literal (CHR ''-'') # Directive (CHR ''d'') # its)
           (pad2 m @ CHR ''-'' # pad2 d @ rest)
          = ((CHR ''m'', pad2 m) # (CHR ''d'', pad2 d) # caps, rest') # others2" by blast
  then have r4: "rx_match (Literal (CHR ''-'') # Directive (CHR ''m'') # Literal (CHR ''-'')
            # Directive (CHR ''d'') # its) (CHR ''-'' # pad2 m @ CHR ''-'' # pad2 d @ rest)
          = ((CHR ''m'', pad2 m) # (CHR ''d'', pad2 d) # caps, rest') # others2"
    by (simp only: rx_match_literal[OF refl])
  from rx_match_directive_head[OF group_matches_Y r4] obtain others3 where
    "rx_match (Directive (CHR ''Y'') # Literal (CHR ''-'') # Directive (CHR ''m'')
            # Literal (CHR ''-'') # Directive (CHR ''d'') # its)
         (pad4 y @ CHR ''-'' # pad2 m @ CHR ''-'' # pad2 d @ rest)
       = ((CHR ''Y'', pad4 y) # (CHR ''m'', pad2 m) # (CHR ''d'', pad2 d) # caps, rest') # others3"
    by blast
  moreover have "iso_date y m d @ rest = pad4 y @ CHR ''-'' # pad2 m @ CHR ''-'' # pad2 d @ rest"
    by (simp add: iso_date_def)
  ultimately show ?thesis by (simp only:) blast
qed

lemma rx_match_time_head:
  assumes "0 \<le> hh" "hh \<le> 23" "0 \<le> mm" "mm \<le> 59" "0 \<le> ss" "ss \<le> 59"
    and "rx_match its rest = (caps, rest') # others"
  shows "\<exists>others'. rx_match (Directive (CHR ''H'') # Literal (CHR '':'') # Directive (CHR ''M'')
            # Literal (CHR '':'') # Directive (CHR ''S'') # its) (iso_time hh mm ss @ rest)
          = ((CHR ''H'', pad2 hh) # (CHR ''M'', pad2 mm) # (CHR ''S'', pad2 ss) # caps, rest') # others'"
proof -
  from group_matches_S_pad2[OF assms(5,6), of rest] obtain ms1 where
    g1: "group_matches (CHR ''S'') (pad2 ss @ rest) = (pad2 ss, rest) # ms1" by blast
  from rx_match_directive_head[OF g1 assms(7)] obtain others1 where
    r1: "rx_match (Directive (CHR ''S'') # its) (pad2 ss @ rest)
          = ((CHR ''S'', pad2 ss) # caps, rest') # others1" by blast
  then have r2: "rx_match (Literal (CHR '':'') # Directive (CHR ''S'') # its) (CHR '':'' # pad2 ss @ rest)
          = ((CHR ''S'', pad2 ss) # caps, rest') # others1"
    by (simp only: rx_match_literal[OF refl])
  from group_matches_M_pad2[OF assms(3,4), of "CHR '':'' # pad2 ss @ rest"] obtain ms2 where
    g2: "group_matches (CHR ''M'') (pad2 mm @ CHR '':'' # pad2 ss @ rest)
          = (pad2 mm, CHR '':'' # pad2 ss @ rest) # ms2" by blast
  from rx_match_directive_head[OF g2 r2] obtain others2 where
    r3: "rx_match (Directive (CHR ''M'') # Literal (CHR '':'') # Directive (CHR ''S'') # its)
           (pad2 mm @ CHR '':'' # pad2 ss @ rest)
          = ((CHR ''M'', pad2 mm) # (CHR ''S'', pad2 ss) # caps, rest') # others2" by blast
  then have r4: "rx_match (Literal (CHR '':'') # Directive (CHR ''M'') # Literal (CHR '':'')
            # Directive (CHR ''S'') # its) (CHR '':'' # pad2 mm @ CHR '':'' # pad2 ss @ rest)
          = ((CHR ''M'', pad2 mm) # (CHR ''S'', pad2 ss) # caps, rest') # others2"
    by (simp only: rx_match_literal[OF refl])
  from group_matches_H_pad2[OF assms(1,2), of "CHR '':'' # pad2 mm @ CHR '':'' # pad2 ss @ rest"]
  obtain ms3 where
    g3: "group_matches (CHR ''H'') (pad2 hh @ CHR '':'' # pad2 mm @ CHR '':'' # pad2 ss @ rest)
          = (pad2 hh, CHR '':'' # pad2 mm @ CHR '':'' # pad2 ss @ rest) # ms3" by blast
  from rx_match_directive_head[OF g3 r4] obtain others3 where
    "rx_match (Directive (CHR ''H'') # Literal (CHR '':'') # Directive (CHR ''M'')
            # Literal (CHR '':'') # Directive (CHR ''S'') # its)
         (pad2 hh @ CHR '':'' # pad2 mm @ CHR '':'' # pad2 ss @ rest)
       = ((CHR ''H'', pad2 hh) # (CHR ''M'', pad2 mm) # (CHR ''S'', pad2 ss) # caps, rest') # others3"
    by blast
  moreover have "iso_time hh mm ss @ rest = pad2 hh @ CHR '':'' # pad2 mm @ CHR '':'' # pad2 ss @ rest"
    by (simp add: iso_time_def)
  ultimately show ?thesis by (simp only:) blast
qed

lemma compile_date_only:
  "compile_format ''%Y-%m-%d'' =
     [Directive (CHR ''Y''), Literal (CHR ''-''), Directive (CHR ''m''), Literal (CHR ''-''),
      Directive (CHR ''d'')]"
  by code_simp

lemma compile_date_T_time:
  "compile_format ''%Y-%m-%dT%H:%M:%S'' =
     [Directive (CHR ''Y''), Literal (CHR ''-''), Directive (CHR ''m''), Literal (CHR ''-''),
      Directive (CHR ''d''), Literal (CHR ''T''), Directive (CHR ''H''), Literal (CHR '':''),
      Directive (CHR ''M''), Literal (CHR '':''), Directive (CHR ''S'')]"
  by code_simp

lemma compile_date_T_time_Z:
  "compile_format ''%Y-%m-%dT%H:%M:%SZ'' =
     [Directive (CHR ''Y''), Literal (CHR ''-''), Directive (CHR ''m''), Literal (CHR ''-''),
      Directive (CHR ''d''), Literal (CHR ''T''), Directive (CHR ''H''), Literal (CHR '':''),
      Directive (CHR ''M''), Literal (CHR '':''), Directive (CHR ''S''), Literal (CHR ''Z'')]"
  by code_simp

lemma compile_date_space_time:
  "compile_format ''%Y-%m-%d %H:%M:%S'' =
     [Directive (CHR ''Y''), Literal (CHR ''-''), Directive (CHR ''m''), Literal (CHR ''-''),
      Directive (CHR ''d''), Whitespace, Directive (CHR ''H''), Literal (CHR '':''),
      Directive (CHR ''M''), Literal (CHR '':''), Directive (CHR ''S'')]"
  by code_simp

lemma strptime_unconverted:
  "rx_match (compile_format fmt) s = (caps, rest) # others \<Longrightarrow> rest \<noteq> [] \<Longrightarrow>
   strptime s fmt = Inl (ValueError ''unconverted data remains'')"
  by (simp add: strptime_def)

lemma strptime_no_match:
  "rx_match (compile_format fmt) s = [] \<Longrightarrow>
   strptime s fmt = Inl (ValueError ''time data does not match format'')"
  by (simp add: strptime_def)

lemma days_in_month_le_31:
  assumes "1 \<le> m" "m \<le> 12"
  shows "days_in_month y m \<le> 31"
proof -
  from assms have "m \<in> {1, 2, 3, 4, 5, 6, 7, 8, 9, 10, 11, 12}"
    by (simp only: insert_iff empty_iff simp_thms) arith
  then show ?thesis
    by (auto simp: days_in_month_def DAYS_IN_MONTH_def)
qed

lemma check_fields_ranges:
  assumes "check_fields y m d hh mm ss"
  shows "0 \<le> y" "y \<le> 9999" "1 \<le> m" "m \<le> 12" "1 \<le> d" "d \<le> 31"
    "0 \<le> hh" "hh \<le> 23" "0 \<le> mm" "mm \<le> 59" "0 \<le> ss" "ss \<le> 59"
    "check_fields y m d 0 0 0"
proof -
  from assms have a: "1 \<le> m" "m \<le> 12" "d \<le> days_in_month y m"
    by (simp_all add: check_fields_def)
  from days_in_month_le_31[OF a(1,2), of y] a(3) show "d \<le> 31" by simp
qed (use assms in \<open>simp_all add: check_fields_def\<close>)

lemma strptime_date_fields:
  assumes "check_fields y m d 0 0 0"
    and "rx_match (compile_format fmt) s
           = ([(CHR ''Y'', pad4 y), (CHR ''m'', pad2 m), (CHR ''d'', pad2 d)], []) # others"
  shows "strptime s fmt =
     Inr \<lparr>year = y, month = m, day = d, hour = 0, minute = 0, second = 0, microsecond = 0,
          tzinfo = None\<rparr>"
proof -
  note r = check_fields_ranges[OF assms(1)]
  have "py_int (pad4 y) = y" "py_int (pad2 m) = m" "py_int (pad2 d) = d"
    using r by (simp_all add: py_int_pad4 py_int_pad2)
  then show ?thesis
    using assms by (simp add: strptime_def group_int_def)
qed

lemma strptime_date_time_fields:
  assumes "check_fields y m d hh mm ss"
    and "rx_match (compile_format fmt) s
           = ([(CHR ''Y'', pad4 y), (CHR ''m'', pad2 m), (CHR ''d'', pad2 d),
               (CHR ''H'', pad2 hh), (CHR ''M'', pad2 mm), (CHR ''S'', pad2 ss)], []) # others"
  shows "strptime s fmt =
     Inr \<lparr>year = y, month = m, day = d, hour = hh, minute = mm, second = ss, microsecond = 0,
          tzinfo = None\<rparr>"
proof -
  note r = check_fields_ranges[OF assms(1)]
  have "py_int (pad4 y) = y" "py_int (pad2 m) = m" "py_int (pad2 d) = d"
    "py_int (pad2 hh) = hh" "py_int (pad2 mm) = mm" "py_int (pad2 ss) = ss"
    using r by (simp_all add: py_int_pad4 py_int_pad2)
  then show ?thesis
    using assms by (simp add: strptime_def group_int_def)
qed

lemma iso_date_nonempty: "iso_date y m d \<noteq> []"
  by (simp add: iso_date_def pad4_def)

lemma iso_time_nonempty: "iso_time hh mm ss \<noteq> []"
  by (simp add: iso_time_def pad2_def)

text \<open>The date-only format on a date alone and on a date followed by more text.\<close>

lemma strptime_date_only:
  assumes "check_fields y m d 0 0 0"
  shows "strptime (iso_date y m d) ''%Y-%m-%d'' =
     Inr \<lparr>year = y, month = m, day = d, hour = 0, minute = 0, second = 0, microsecond = 0,
          tzinfo = None\<rparr>"
proof -
  note r = check_fields_ranges[OF assms]
  have "rx_match [] [] = ([], []) # []" by simp
  from rx_match_date_head[OF r(1-6) this] obtain others where
    "rx_match (compile_format ''%Y-%m-%d'') (iso_date y m d)
       = ([(CHR ''Y'', pad4 y), (CHR ''m'', pad2 m), (CHR ''d'', pad2 d)], []) # others"
    unfolding compile_date_only append_Nil2 by blast
  from strptime_date_fields[OF assms this] show ?thesis .
qed

lemma strptime_date_only_rest:
  assumes "check_fields y m d hh mm ss" and "rest \<noteq> []"
  shows "strptime (iso_date y m d @ rest) ''%Y-%m-%d'' = Inl (ValueError ''unconverted data remains'')"
proof -
  note r = check_fields_ranges[OF assms(1)]
  have "rx_match [] rest = ([], rest) # []" by simp
  from rx_match_date_head[OF r(1-6) this] obtain others where
    "rx_match (compile_format ''%Y-%m-%d'') (iso_date y m d @ rest)
       = ([(CHR ''Y'', pad4 y), (CHR ''m'', pad2 m), (CHR ''d'', pad2 d)], rest) # others"
    unfolding compile_date_only append_Nil2 by blast
  from strptime_unconverted[OF this assms(2)] show ?thesis .
qed

text \<open>The format with \<open>T\<close> on the texts with \<open>T\<close>, without and with a final \<open>Z\<close>.\<close>

lemma rx_match_T_time:
  assumes "check_fields y m d hh mm ss"
  shows "\<exists>others. rx_match (compile_format ''%Y-%m-%dT%H:%M:%S'')
             (iso_date y m d @ ''T'' @ iso_time hh mm ss @ rest)
           = ([(CHR ''Y'', pad4 y), (CHR ''m'', pad2 m), (CHR ''d'', pad2 d),
               (CHR ''H'', pad2 hh), (CHR ''M'', pad2 mm), (CHR ''S'', pad2 ss)], rest) # others"
proof -
  note r = check_fields_ranges[OF assms]
  have "rx_match [] rest = ([], rest) # []" by simp
  from rx_match_time_head[OF r(7-12) this] obtain o1 where
    t: "rx_match [Directive (CHR ''H''), Literal (CHR '':''), Directive (CHR ''M''),
          Literal (CHR '':''), Directive (CHR ''S'')] (iso_time hh mm ss @ rest)
        = ([(CHR ''H'', pad2 hh), (CHR ''M'', pad2 mm), (CHR ''S'', pad2 ss)], rest) # o1"
    by auto
  then have "rx_match [Literal (CHR ''T''), Directive (CHR ''H''), Literal (CHR '':''),
          Directive (CHR ''M''), Literal (CHR '':''), Directive (CHR ''S'')]
          (''T'' @ iso_time hh mm ss @ rest)
        = ([(CHR ''H'', pad2 hh), (CHR ''M'', pad2 mm), (CHR ''S'', pad2 ss)], rest) # o1"
    by (simp add: rx_match_literal)
  from rx_match_date_head[OF r(1-6) this] show ?thesis
    unfolding compile_date_T_time append_Nil2 by blast
qed

lemma strptime_T_time:
  assumes "check_fields y m d hh mm ss"
  shows "strptime (iso_date y m d @ ''T'' @ iso_time hh mm ss) ''%Y-%m-%dT%H:%M:%S'' =
     Inr \<lparr>year = y, month = m, day = d, hour = hh, minute = mm, second = ss, microsecond = 0,
          tzinfo = None\<rparr>"
proof -
  from rx_match_T_time[OF assms, of "[]"] obtain others where
    "rx_match (compile_format ''%Y-%m-%dT%H:%M:%S'') (iso_date y m d @ ''T'' @ iso_time hh mm ss)
       = ([(CHR ''Y'', pad4 y), (CHR ''m'', pad2 m), (CHR ''d'', pad2 d),
           (CHR ''H'', pad2 hh), (CHR ''M'', pad2 mm), (CHR ''S'', pad2 ss)], []) # others"
    unfolding append_Nil2 by blast
  from strptime_date_time_fields[OF assms this] show ?thesis .
qed

lemma strptime_T_time_rest:
  assumes "check_fields y m d hh mm ss" and "rest \<noteq> []"
  shows "strptime (iso_date y m d @ ''T'' @ iso_time hh mm ss @ rest) ''%Y-%m-%dT%H:%M:%S''
           = Inl (ValueError ''unconverted data remains'')"
proof -
  from rx_match_T_time[OF assms(1), of rest] obtain caps others where
    "rx_match (compile_format ''%Y-%m-%dT%H:%M:%S'') (iso_date y m d @ ''T'' @ iso_time hh mm ss @ rest)
       = (caps, rest) # others"
    by blast
  from strptime_unconverted[OF this assms(2)] show ?thesis .
qed

lemma strptime_T_time_Z:
  assumes "check_fields y m d hh mm ss"
  shows "strptime (iso_date y m d @ ''T'' @ iso_time hh mm ss @ ''Z'') ''%Y-%m-%dT%H:%M:%SZ'' =
     Inr \<lparr>year = y, month = m, day = d, hour = hh, minute = mm, second = ss, microsecond = 0,
          tzinfo = None\<rparr>"
proof -
  note r = check_fields_ranges[OF assms]
  have "rx_match [Literal (CHR ''Z'')] ''Z'' = ([], []) # []" by simp
  from rx_match_time_head[OF r(7-12) this] obtain o1 where
    t: "rx_match [Directive (CHR ''H''), Literal (CHR '':''), Directive (CHR ''M''),
          Literal (CHR '':''), Directive (CHR ''S''), Literal (CHR ''Z'')] (iso_time hh mm ss @ ''Z'')
        = ([(CHR ''H'', pad2 hh), (CHR ''M'', pad2 mm), (CHR ''S'', pad2 ss)], []) # o1"
    by auto
  then have "rx_match [Literal (CHR ''T''), Directive (CHR ''H''), Literal (CHR '':''),
          Directive (CHR ''M''), Literal (CHR '':''), Directive (CHR ''S''), Literal (CHR ''Z'')]
          (''T'' @ iso_time hh mm ss @ ''Z'')
        = ([(CHR ''H'', pad2 hh), (CHR ''M'', pad2 mm), (CHR ''S'', pad2 ss)], []) # o1"
    by (simp add: rx_match_literal)
  from rx_match_date_head[OF r(1-6) this] obtain others where
    "rx_match (compile_format ''%Y-%m-%dT%H:%M:%SZ'') (iso_date y m d @ ''T'' @ iso_time hh mm ss @ ''Z'')
       = ([(CHR ''Y'', pad4 y), (CHR ''m'', pad2 m), (CHR ''d'', pad2 d),
           (CHR ''H'', pad2 hh), (CHR ''M'', pad2 mm), (CHR ''S'', pad2 ss)], []) # others"
    unfolding compile_date_T_time_Z append_Nil2 by blast
  from strptime_date_time_fields[OF assms this] show ?thesis .
qed

text \<open>The formats with \<open>T\<close> on the text with a space; the format with a space.\<close>

lemma set_pad2: "set (pad2 v) \<subseteq> set digits"
  by (simp add: pad2_def digit_char_in_digits)

lemma set_pad4: "set (pad4 v) \<subseteq> set digits"
  by (simp add: pad4_def digit_char_in_digits)

lemma space_text_chars:
  "set (iso_date y m d @ '' '' @ iso_time hh mm ss) \<subseteq> set (digits @ ''-: '')"
  using set_pad2[of m] set_pad2[of d] set_pad2[of hh] set_pad2[of mm] set_pad2[of ss] set_pad4[of y]
  by (auto simp: iso_date_def iso_time_def)

lemma no_T_among: "x \<in> set (digits @ ''-: '') \<Longrightarrow> lower x \<noteq> lower (CHR ''T'')"
  by (auto simp: digits_def lower_def)

lemma strptime_T_on_space:
  assumes "Literal (CHR ''T'') \<in> set (compile_format fmt)"
  shows "strptime (iso_date y m d @ '' '' @ iso_time hh mm ss) fmt
           = Inl (ValueError ''time data does not match format'')"
proof -
  have "rx_match (compile_format fmt) (iso_date y m d @ '' '' @ iso_time hh mm ss) = []"
  proof (rule ccontr)
    assume "rx_match (compile_format fmt) (iso_date y m d @ '' '' @ iso_time hh mm ss) \<noteq> []"
    from rx_match_literal_needed[OF assms this] obtain x where
      "x \<in> set (iso_date y m d @ '' '' @ iso_time hh mm ss)" "lower x = lower (CHR ''T'')" by blast
    with space_text_chars[of y m d hh mm ss] no_T_among[of x] show False by blast
  qed
  then show ?thesis by (rule strptime_no_match)
qed

lemma digit_char_not_is_space: "\<not> is_space (digit_char (n mod 10))"
proof -
  have "0 \<le> n mod 10" "n mod 10 \<le> 9" by simp_all
  from digit_cases[OF this] show ?thesis
    by (auto simp: is_space_def digit_char_def)
qed

lemma rx_match_one_space:
  "rx_match (Whitespace # its) ('' '' @ iso_time hh mm ss @ rest) = rx_match its (iso_time hh mm ss @ rest)"
proof -
  have "is_space (CHR '' '')" by (simp add: is_space_def)
  moreover have "\<not> is_space (digit_char (hh div 10 mod 10))" by (rule digit_char_not_is_space)
  ultimately have "takeWhile is_space ('' '' @ iso_time hh mm ss @ rest) = '' ''"
    by (simp add: iso_time_def pad2_def)
  then show ?thesis by simp
qed

lemma strptime_space_time:
  assumes "check_fields y m d hh mm ss"
  shows "strptime (iso_date y m d @ '' '' @ iso_time hh mm ss) ''%Y-%m-%d %H:%M:%S'' =
     Inr \<lparr>year = y, month = m, day = d, hour = hh, minute = mm, second = ss, microsecond = 0,
          tzinfo = None\<rparr>"
proof -
  note r = check_fields_ranges[OF assms]
  have "rx_match [] [] = ([], []) # []" by simp
  from rx_match_time_head[OF r(7-12) this] obtain o1 where
    t: "rx_match [Directive (CHR ''H''), Literal (CHR '':''), Directive (CHR ''M''),
          Literal (CHR '':''), Directive (CHR ''S'')] (iso_time hh mm ss @ [])
        = ([(CHR ''H'', pad2 hh), (CHR ''M'', pad2 mm), (CHR ''S'', pad2 ss)], []) # o1"
    by auto
  have "rx_match [Whitespace, Directive (CHR ''H''), Literal (CHR '':''),
          Directive (CHR ''M''), Literal (CHR '':''), Directive (CHR ''S'')]
          ('' '' @ iso_time hh mm ss @ [])
        = ([(CHR ''H'', pad2 hh), (CHR ''M'', pad2 mm), (CHR ''S'', pad2 ss)], []) # o1"
    by (simp only: rx_match_one_space t)
  from rx_match_date_head[OF r(1-6) this] obtain others where
    "rx_match (compile_format ''%Y-%m-%d %H:%M:%S'') (iso_date y m d @ '' '' @ iso_time hh mm ss)
       = ([(CHR ''Y'', pad4 y), (CHR ''m'', pad2 m), (CHR ''d'', pad2 d),
           (CHR ''H'', pad2 hh), (CHR ''M'', pad2 mm), (CHR ''S'', pad2 ss)], []) # others"
    unfolding compile_date_space_time append_Nil2 by blast
  from strptime_date_time_fields[OF assms this] show ?thesis .
qed

lemma strptime_only_value_error: "strptime s f = Inl e \<Longrightarrow> \<exists>msg. e = ValueError msg"
  by (auto simp: strptime_def Let_def split: list.splits prod.splits if_splits)

lemma try_formats_skip:
  "strptime s f = Inl (ValueError msg) \<Longrightarrow> try_formats s (f # fs) = try_formats s fs"
  by simp

lemma try_formats_hit:
  "strptime s f = Inr dt \<Longrightarrow> try_formats s (f # fs) = Inr (dt\<lparr>tzinfo := Some 0\<rparr>)"
  using strptime_naive[of s f dt] by simp

text \<open>
  The formats are tried in their order and the first that parses decides; a value
  without a zone is given \<^verbatim>\<open>timezone.utc\<close>; when none parses the error carries the
  text of \<open>unable_to_parse\<close>.
\<close>

lemma try_formats_first_match:
  assumes "\<forall>f \<in> set pre. \<exists>msg. strptime s f = Inl (ValueError msg)"
    and "strptime s fmt = Inr dt"
  shows "try_formats s (pre @ fmt # post) = Inr (dt\<lparr>tzinfo := Some 0\<rparr>)"
  using assms(1)
proof (induction pre)
  case Nil
  show ?case using assms(2) by (simp add: try_formats_hit del: try_formats.simps)
next
  case (Cons f pre)
  then obtain msg where "strptime s f = Inl (ValueError msg)" by auto
  from try_formats_skip[OF this] Cons show ?case by simp
qed

lemma parse_date_first_match:
  assumes "date_formats = pre @ fmt # post"
    and "\<forall>f \<in> set pre. \<exists>msg. strptime s f = Inl (ValueError msg)"
    and "strptime s fmt = Inr dt"
  shows "parse_date s = Inr (dt\<lparr>tzinfo := Some 0\<rparr>)"
  unfolding parse_date_def assms(1) using assms(2,3) by (rule try_formats_first_match)

lemma try_formats_no_match:
  assumes "\<forall>f \<in> set fs. \<exists>e. strptime s f = Inl e"
  shows "try_formats s fs = Inl (ValueError (unable_to_parse s))"
  using assms
proof (induction fs)
  case Nil
  show ?case by simp
next
  case (Cons f fs)
  then obtain e where e: "strptime s f = Inl e" by auto
  with strptime_only_value_error obtain msg where "e = ValueError msg" by blast
  with e try_formats_skip Cons show ?case by simp
qed

lemma parse_date_no_match:
  assumes "\<forall>f \<in> set date_formats. \<exists>e. strptime s f = Inl e"
  shows "parse_date s = Inl (ValueError (unable_to_parse s))"
  unfolding parse_date_def using assms by (rule try_formats_no_match)

lemma parse_date_cases:
  "(\<exists>dt. parse_date s = Inr dt \<and> tzinfo dt = Some 0)
   \<or> parse_date s = Inl (ValueError (unable_to_parse s))"
proof (cases "\<forall>f \<in> set date_formats. \<exists>e. strptime s f = Inl e")
  case True
  then show ?thesis by (simp add: parse_date_no_match)
next
  case False
  then obtain f dt where "f \<in> set date_formats" "strptime s f = Inr dt"
    by (metis sum.exhaust)
  have "\<exists>dt. try_formats s fs = Inr dt" if "f \<in> set fs" for fs
    using that
  proof (induction fs)
    case Nil
    then show ?case by simp
  next
    case (Cons g fs)
    show ?case
    proof (cases "strptime s g")
      case (Inr d)
      then show ?thesis by simp
    next
      case (Inl e)
      with strptime_only_value_error obtain msg where m: "e = ValueError msg" by blast
      have "g \<noteq> f" using Inl \<open>strptime s f = Inr dt\<close> by auto
      with Cons have "\<exists>dt. try_formats s fs = Inr dt" by auto
      with Inl m show ?thesis by simp
    qed
  qed
  from this[OF \<open>f \<in> set date_formats\<close>] obtain d where "parse_date s = Inr d"
    by (auto simp: parse_date_def)
  with parse_date_utc show ?thesis by blast
qed

lemma unable_to_parse_names_input: "contains_str s (unable_to_parse s)"
  unfolding contains_str_iff unable_to_parse_def by blast

section \<open>Parsing the cutoff date: claims\<close>

text \<open>
  Claim C7. For every valid date and time of day, the zero-padded texts of the three
  layouts with a time (with \<open>T\<close>, with \<open>T\<close> and a final \<open>Z\<close>, with a space) parse to one
  and the same instant, the given date and time in UTC; the date-only text parses to
  midnight UTC of the date, which is what the other three give for the time 00:00:00.
\<close>

theorem parse_date_layouts_agree:
  assumes "check_fields y m d hh mm ss"
  shows "parse_date (iso_date y m d @ ''T'' @ iso_time hh mm ss) = Inr (utc_instant y m d hh mm ss) \<and>
         parse_date (iso_date y m d @ ''T'' @ iso_time hh mm ss @ ''Z'')
           = Inr (utc_instant y m d hh mm ss) \<and>
         parse_date (iso_date y m d @ '' '' @ iso_time hh mm ss) = Inr (utc_instant y m d hh mm ss) \<and>
         parse_date (iso_date y m d) = Inr (utc_instant y m d 0 0 0)"
proof -
  note r = check_fields_ranges[OF assms]
  have f: "date_formats = [] @ ''%Y-%m-%d'' # [''%Y-%m-%dT%H:%M:%S'', ''%Y-%m-%dT%H:%M:%SZ'', ''%Y-%m-%d %H:%M:%S'']"
    "date_formats = [''%Y-%m-%d''] @ ''%Y-%m-%dT%H:%M:%S'' # [''%Y-%m-%dT%H:%M:%SZ'', ''%Y-%m-%d %H:%M:%S'']"
    "date_formats = [''%Y-%m-%d'', ''%Y-%m-%dT%H:%M:%S''] @ ''%Y-%m-%dT%H:%M:%SZ'' # [''%Y-%m-%d %H:%M:%S'']"
    "date_formats = [''%Y-%m-%d'', ''%Y-%m-%dT%H:%M:%S'', ''%Y-%m-%dT%H:%M:%SZ''] @ ''%Y-%m-%d %H:%M:%S'' # []"
    by (simp_all add: date_formats_def)
  have u1: "strptime (iso_date y m d @ ''T'' @ iso_time hh mm ss) ''%Y-%m-%d''
      = Inl (ValueError ''unconverted data remains'')"
    by (rule strptime_date_only_rest[OF assms]) simp
  have u2: "strptime (iso_date y m d @ ''T'' @ iso_time hh mm ss @ ''Z'') ''%Y-%m-%d''
      = Inl (ValueError ''unconverted data remains'')"
    by (rule strptime_date_only_rest[OF assms]) simp
  have u3: "strptime (iso_date y m d @ ''T'' @ iso_time hh mm ss @ ''Z'') ''%Y-%m-%dT%H:%M:%S''
      = Inl (ValueError ''unconverted data remains'')"
    by (rule strptime_T_time_rest[OF assms]) simp
  have u4: "strptime (iso_date y m d @ '' '' @ iso_time hh mm ss) ''%Y-%m-%d''
      = Inl (ValueError ''unconverted data remains'')"
    by (rule strptime_date_only_rest[OF assms]) simp
  have u5: "strptime (iso_date y m d @ '' '' @ iso_time hh mm ss) ''%Y-%m-%dT%H:%M:%S''
      = Inl (ValueError ''time data does not match format'')"
    by (rule strptime_T_on_space) (simp only: compile_date_T_time list.set insert_iff simp_thms)
  have u6: "strptime (iso_date y m d @ '' '' @ iso_time hh mm ss) ''%Y-%m-%dT%H:%M:%SZ''
      = Inl (ValueError ''time data does not match format'')"
    by (rule strptime_T_on_space) (simp only: compile_date_T_time_Z list.set insert_iff simp_thms)
  have p2: "parse_date (iso_date y m d @ ''T'' @ iso_time hh mm ss) = Inr (utc_instant y m d hh mm ss)"
    using parse_date_first_match[OF f(2) _ strptime_T_time[OF assms]] u1
    by (simp add: utc_instant_def)
  have p3: "parse_date (iso_date y m d @ ''T'' @ iso_time hh mm ss @ ''Z'')
      = Inr (utc_instant y m d hh mm ss)"
    using parse_date_first_match[OF f(3) _ strptime_T_time_Z[OF assms]] u2 u3
    by (simp add: utc_instant_def)
  have p4: "parse_date (iso_date y m d @ '' '' @ iso_time hh mm ss) = Inr (utc_instant y m d hh mm ss)"
    using parse_date_first_match[OF f(4) _ strptime_space_time[OF assms]] u4 u5 u6
    by (simp add: utc_instant_def)
  have p1: "parse_date (iso_date y m d) = Inr (utc_instant y m d 0 0 0)"
    using parse_date_first_match[OF f(1) _ strptime_date_only[OF r(13)]]
    by (simp add: utc_instant_def)
  from p1 p2 p3 p4 show ?thesis by simp
qed

theorem parse_date_layouts_agree_witness:
  "check_fields 2024 1 1 0 0 0 \<and>
   parse_date ''2024-01-01'' = Inr (utc_instant 2024 1 1 0 0 0) \<and>
   parse_date ''2024-01-01T00:00:00'' = Inr (utc_instant 2024 1 1 0 0 0) \<and>
   parse_date ''2024-01-01T00:00:00Z'' = Inr (utc_instant 2024 1 1 0 0 0) \<and>
   parse_date ''2024-01-01 00:00:00'' = Inr (utc_instant 2024 1 1 0 0 0)"
proof -
  have c: "check_fields 2024 1 1 0 0 0" by code_simp
  have d: "iso_date 2024 1 1 = ''2024-01-01''" by code_simp
  have t: "iso_time 0 0 0 = ''00:00:00''" by code_simp
  from parse_date_layouts_agree[OF c, unfolded d t] c show ?thesis by simp
qed

text \<open>
  Claim C5. On a text no layout matches, the error names the text and three layouts; the
  layout with a space, which \<open>parse_date\<close> accepts, is not among them.
\<close>

theorem unparseable_date_message_omits_space_layout:
  "parse_date ''not-a-date'' =
     Inl (ValueError ''Unable to parse date: not-a-date. Supported formats: YYYY-MM-DD, YYYY-MM-DDTHH:MM:SS, YYYY-MM-DDTHH:MM:SSZ'') \<and>
   parse_date ''2024-01-01 00:00:00'' = Inr (utc_instant 2024 1 1 0 0 0)"
  by code_simp

section \<open>Calendar arithmetic and the conversion to UTC\<close>








lemma astimezone_utc_overflow:
  assumes "off \<noteq> 0"
    and "\<not> (0 < (wall_micros dt - off) div 86400000000
            \<and> (wall_micros dt - off) div 86400000000 \<le> MAXORDINAL)"
  shows "format_date_for_api (dt\<lparr>tzinfo := Some off\<rparr>) = Inl OverflowError"
  using assms by (auto simp: format_date_for_api_def astimezone_utc_def Let_def wall_micros_def)


lemma year_text_short: "y < 1000 \<Longrightarrow> length (year_text y) < 4"
  by (simp add: year_text_def pad4_def)

lemma format_date_for_api_naive:
  "tzinfo dt = None \<Longrightarrow>
   format_date_for_api dt
     = Inr (''date('' @ year_text (year dt) @ ''-'' @ pad2 (month dt) @ ''-'' @ pad2 (day dt) @ '')'')"
  by (simp add: format_date_for_api_def strftime_date_def)

section \<open>The filter literal: claim\<close>




end
